theory Spec2Isabelle
  imports Complex_Main "HOL-Library.Word"
begin

section \<open>The ASCII converter: data model\<close>

text \<open>
  The converter is the TypeScript module behind \<^verbatim>\<open>@/lib/ascii-converter\<close>. A JavaScript
  \<^verbatim>\<open>number\<close> is a binary64 value, modelled as the \<^typ>\<open>real\<close> it denotes (no NaN, no
  Infinity); the result of every sum, difference, product and quotient of the sampler, of the
  glyph mapper and of the export is rounded as the processor rounds it (\<open>fl\<close>, below).
  \<^verbatim>\<open>Math.floor\<close>, \<^verbatim>\<open>Math.ceil\<close> and \<^verbatim>\<open>Math.round\<close> return integers, and a decimal literal
  such as \<^verbatim>\<open>0.6\<close> is the double next to it, \<open>fl 0.6\<close>. Loop counters, sums of bytes and
  array lengths are whole numbers, which doubles hold exactly below \<open>2^53\<close>; they are
  \<^typ>\<open>nat\<close>.
  The bytes of a \<^verbatim>\<open>Uint8ClampedArray\<close> are \<^typ>\<open>8 word\<close>.

  Record fields are constants in HOL, so the fields \<^verbatim>\<open>x\<close> and \<^verbatim>\<open>y\<close> of \<^verbatim>\<open>ASCIIChar\<close>
  are called \<open>cellX\<close> and \<open>cellY\<close>, and function parameters named like a field of the
  settings (\<^verbatim>\<open>brightness\<close>, \<^verbatim>\<open>contrast\<close>, \<^verbatim>\<open>invert\<close>) get a short name.
\<close>

datatype colorMode = Original | Monochrome | Gradient | Custom

datatype blendMode = Normal | Multiply | Screen | Overlay | Difference

record ASCIISettings =
  characterSet :: string
  pixelSize :: real
  colorMode :: colorMode
  monochromeColor :: string
  gradientColors :: "string list"
  backgroundColor :: string
  transparentBackground :: bool
  blendMode :: blendMode
  contrast :: real
  brightness :: real
  invert :: bool
  fontSize :: real

record 'a rgb =
  r :: 'a
  g :: 'a
  b :: 'a

record ASCIIChar =
  char :: string
  color :: string
  cellX :: nat
  cellY :: nat

section \<open>Double arithmetic\<close>

text \<open>
  The result of an arithmetic operation on doubles is the exact result rounded to 53
  significant bits, ties to even. \<open>fl\<close> is that rounding: \<open>exponent x\<close> is the \<open>e\<close> with
  \<open>2^e \<le> x < 2^(e+1)\<close>, and \<open>x\<close> is rounded to a multiple of \<open>2^(e-52)\<close>. The exponent
  range is not bounded: overflow to Infinity and subnormal numbers (magnitudes from \<open>2^1024\<close>
  and below \<open>2^-1022\<close>) are outside the model.
\<close>

function expUp :: "real \<Rightarrow> int" where
  "expUp x = (if 2 \<le> x then expUp (x / 2) + 1 else 0)"
  by pat_completeness auto
termination
proof (relation "measure (\<lambda>x. nat \<lfloor>x\<rfloor>)")
  fix x :: real
  assume "2 \<le> x"
  then have "\<lfloor>x / 2\<rfloor> < \<lfloor>x\<rfloor>" by linarith
  moreover from \<open>2 \<le> x\<close> have "0 < \<lfloor>x\<rfloor>" by linarith
  ultimately show "(x / 2, x) \<in> measure (\<lambda>x. nat \<lfloor>x\<rfloor>)" by simp
qed simp

function expDown :: "real \<Rightarrow> int" where
  "expDown x = (if 0 < x \<and> x < 1 then expDown (2 * x) - 1 else 0)"
  by pat_completeness auto
termination
proof (relation "measure (\<lambda>x. nat \<lfloor>1 / x\<rfloor>)")
  fix x :: real
  assume a: "0 < x \<and> x < 1"
  define y where "y = 1 / x"
  from a have "1 < y" by (simp add: y_def)
  then have pos: "0 < \<lfloor>y\<rfloor>" by linarith
  have "\<lfloor>y / 2\<rfloor> = \<lfloor>y\<rfloor> div 2"
    using floor_divide_real_eq_div [of 2 y] by simp
  with pos have "\<lfloor>y / 2\<rfloor> < \<lfloor>y\<rfloor>" by linarith
  moreover have "1 / (2 * x) = y / 2" by (simp add: y_def)
  ultimately have "\<lfloor>1 / (2 * x)\<rfloor> < \<lfloor>y\<rfloor>" by (simp only:)
  with pos have "nat \<lfloor>1 / (2 * x)\<rfloor> < nat \<lfloor>1 / x\<rfloor>"
    unfolding y_def by linarith
  then show "(2 * x, x) \<in> measure (\<lambda>x. nat \<lfloor>1 / x\<rfloor>)"
    by (simp only: in_measure)
qed simp

definition exponent :: "real \<Rightarrow> int" where
  "exponent x = (if 1 \<le> x then expUp x else expDown x)"

definition roundTiesToEven :: "real \<Rightarrow> int" where
  "roundTiesToEven y =
     (let f = \<lfloor>y\<rfloor>; d = y - real_of_int f
      in if d < 1 / 2 then f else if 1 / 2 < d then f + 1 else if even f then f else f + 1)"

definition fl :: "real \<Rightarrow> real" where
  "fl x = (if x = 0 then 0
           else let u = 2 powi (exponent \<bar>x\<bar> - 52)
                in real_of_int (roundTiesToEven (x / u)) * u)"

text \<open>\<^verbatim>\<open>Math.round\<close> rounds a half towards plus infinity.\<close>

definition Math_round :: "real \<Rightarrow> int" where
  "Math_round v = \<lfloor>v + 1 / 2\<rfloor>"

section \<open>Colour arithmetic\<close>

text \<open>
  \<^verbatim>\<open>0.299 * r + 0.587 * g + 0.114 * b\<close> is evaluated from the left: three rounded products
  and two rounded sums.
\<close>

definition rgbToGrayscale :: "real \<Rightarrow> real \<Rightarrow> real \<Rightarrow> real" where
  "rgbToGrayscale cr cg cb =
     fl (fl (fl (fl 0.299 * cr) + fl (fl 0.587 * cg)) + fl (fl 0.114 * cb))"

definition applyBrightness :: "real \<Rightarrow> real \<Rightarrow> real" where
  "applyBrightness v br = min 255 (max 0 (fl (v * br)))"

text \<open>
  The neutral guard \<^verbatim>\<open>Math.abs(contrast - 1.0) < 0.001\<close> is written with the exact
  difference and the exact bound: for a double within \<open>[0.5, 2]\<close> the difference from 1 is a
  double, so it is not rounded, and no double lies between 0.001 and the double next to it;
  for a double outside \<open>[0.5, 2]\<close> both comparisons fail.
\<close>

definition applyContrast :: "real \<Rightarrow> real \<Rightarrow> real" where
  "applyContrast v ct =
     (if \<bar>ct - 1.0\<bar> < 0.001 then v
      else let adjusted = fl (fl (fl (v - 128) * ct) + 128) in min 255 (max 0 adjusted))"

text \<open>
  \<^verbatim>\<open>applyBlendMode\<close> writes the same expression three times, once for each channel;
  \<open>blendChannel\<close> is that expression. \<^verbatim>\<open>2 * c * c\<close> is \<^verbatim>\<open>(2 * c) * c\<close>.
\<close>

definition blendChannel :: "blendMode \<Rightarrow> real \<Rightarrow> real" where
  "blendChannel m c =
     (case m of
        Multiply \<Rightarrow> fl (fl (c * c) / 255)
      | Screen \<Rightarrow> fl (255 - fl (fl (fl (255 - c) * fl (255 - c)) / 255))
      | Overlay \<Rightarrow>
          (if c < 128 then fl (fl (fl (2 * c) * c) / 255)
           else fl (255 - fl (fl (fl (2 * fl (255 - c)) * fl (255 - c)) / 255)))
      | Difference \<Rightarrow> \<bar>fl (c - 128)\<bar>
      | Normal \<Rightarrow> c)"

definition applyBlendMode :: "real \<Rightarrow> real \<Rightarrow> real \<Rightarrow> blendMode \<Rightarrow> real rgb" where
  "applyBlendMode sourceR sourceG sourceB m =
     \<lparr>r = blendChannel m sourceR, g = blendChannel m sourceG, b = blendChannel m sourceB\<rparr>"

subsection \<open>Hex strings\<close>

text \<open>
  \<^verbatim>\<open>hexToRgb\<close> matches \<^verbatim>\<open>/^#?([a-f\d]{2})([a-f\d]{2})([a-f\d]{2})$/i\<close>: an optional
  \<^verbatim>\<open>#\<close>, then exactly six hexadecimal digits of either case. \<open>matchesHex\<close> returns the six
  digits when the expression matches. \<^verbatim>\<open>parseInt(s, 16)\<close> is only applied to matched digits.
  \<^verbatim>\<open>rgbToHex\<close> is modelled on integers: every caller passes the result of \<^verbatim>\<open>Math.round\<close>
  or of \<^verbatim>\<open>parseInt\<close>. \<^verbatim>\<open>toString(16)\<close> writes lower-case digits and a minus sign.
\<close>

definition isHexDigit :: "char \<Rightarrow> bool" where
  "isHexDigit c = (c \<in> set ''0123456789abcdefABCDEF'')"

definition hexDigitValue :: "char \<Rightarrow> nat" where
  "hexDigitValue c =
     (let n = (of_char c :: nat) in
      if 48 \<le> n \<and> n \<le> 57 then n - 48
      else if 97 \<le> n \<and> n \<le> 102 then n - 87
      else if 65 \<le> n \<and> n \<le> 70 then n - 55
      else 0)"

definition parseInt16 :: "string \<Rightarrow> nat" where
  "parseInt16 s = foldl (\<lambda>acc c. 16 * acc + hexDigitValue c) 0 s"

definition matchesHex :: "string \<Rightarrow> string option" where
  "matchesHex hex =
     (let body = (case hex of [] \<Rightarrow> hex | c # rest \<Rightarrow> if c = CHR ''#'' then rest else hex)
      in if length body = 6 \<and> list_all isHexDigit body then Some body else None)"

definition hexToRgb :: "string \<Rightarrow> int rgb" where
  "hexToRgb hex =
     (case matchesHex hex of
        Some body \<Rightarrow>
          \<lparr>r = int (parseInt16 (take 2 body)),
           g = int (parseInt16 (take 2 (drop 2 body))),
           b = int (parseInt16 (take 2 (drop 4 body)))\<rparr>
      | None \<Rightarrow> \<lparr>r = 255, g = 255, b = 255\<rparr>)"

definition hexChar :: "nat \<Rightarrow> char" where
  "hexChar d = ''0123456789abcdef'' ! d"

fun hexDigits :: "nat \<Rightarrow> string" where
  "hexDigits n = (if n < 16 then [hexChar n] else hexDigits (n div 16) @ [hexChar (n mod 16)])"

definition toString16 :: "int \<Rightarrow> string" where
  "toString16 x = (if x < 0 then CHR ''-'' # hexDigits (nat (- x)) else hexDigits (nat x))"

definition padStart :: "nat \<Rightarrow> char \<Rightarrow> string \<Rightarrow> string" where
  "padStart n c s = replicate (n - length s) c @ s"

definition rgbToHex :: "int \<Rightarrow> int \<Rightarrow> int \<Rightarrow> string" where
  "rgbToHex cr cg cb = CHR ''#'' # concat (map (\<lambda>x. padStart 2 CHR ''0'' (toString16 x)) [cr, cg, cb])"

text \<open>
  Reading an array beyond its ends gives \<^verbatim>\<open>undefined\<close>, which the regular expression of
  \<^verbatim>\<open>hexToRgb\<close> receives as the string \<^verbatim>\<open>undefined\<close>. \<^verbatim>\<open>colors.length - 1\<close> is a
  number like every other: it is the length less one for every list an array can hold, and
  its rounding for a list too long for a double to count. The difference of two colour
  channels is a difference of whole numbers below 256, which is exact.
\<close>

definition elemOrUndefined :: "string list \<Rightarrow> int \<Rightarrow> string" where
  "elemOrUndefined xs i = (if 0 \<le> i \<and> i < int (length xs) then xs ! nat i else ''undefined'')"

definition interpolateGradient :: "string list \<Rightarrow> real \<Rightarrow> string" where
  "interpolateGradient colors position =
     (if length colors = 0 then ''#ffffff''
      else if length colors = 1 then colors ! 0
      else
        let scaledPosition = fl (position * fl (real (length colors - 1)));
            index = \<lfloor>scaledPosition\<rfloor>;
            t = fl (scaledPosition - real_of_int index)
        in if real_of_int index \<ge> fl (real (length colors - 1)) then colors ! (length colors - 1)
           else
             let color1 = hexToRgb (elemOrUndefined colors index);
                 color2 = hexToRgb (elemOrUndefined colors (index + 1));
                 cr = Math_round (fl (real_of_int (r color1) +
                        fl (real_of_int (r color2 - r color1) * t)));
                 cg = Math_round (fl (real_of_int (g color1) +
                        fl (real_of_int (g color2 - g color1) * t)));
                 cb = Math_round (fl (real_of_int (b color1) +
                        fl (real_of_int (b color2 - b color1) * t)))
             in rgbToHex cr cg cb)"

section \<open>Glyph mapping\<close>

definition getCharacterForBrightness :: "real \<Rightarrow> string \<Rightarrow> bool \<Rightarrow> string" where
  "getCharacterForBrightness v charSet invertFlag =
     (if length charSet = 0 then '' ''
      else if length charSet = 1 then [charSet ! 0]
      else
        let normalizedBrightness = fl (min 255 (max 0 v) / 255);
            adjustedBrightness =
              (if invertFlag then fl (1 - normalizedBrightness) else normalizedBrightness);
            index = Math_round (fl (adjustedBrightness * real (length charSet - 1)))
        in [charSet ! nat (min (max 0 index) (int (length charSet) - 1))])"

section \<open>Sampling a frame\<close>

text \<open>
  A canvas gives the four RGBA bytes of every pixel position; outside its area a canvas is
  transparent black. \<^verbatim>\<open>getImageData(0, 0, width, height).data\<close> is the row-major array of
  \<open>4 * width * height\<close> bytes. The method takes the width and the height as 32-bit signed
  integers of an enforced range: it refuses a number of \<open>2^31\<close> or more with a
  \<^verbatim>\<open>TypeError\<close>, and it throws \<^verbatim>\<open>IndexSizeError\<close> when the width or the height is zero.
  The sums over the pixels of a block and their count are whole numbers, which doubles add
  exactly below \<open>2^53\<close>; they stay below on every frame of fewer than \<open>2^45\<close> pixels,
  and the model adds them as natural numbers. The memory that the pixel array takes is not
  bounded in the model.
\<close>

type_synonym canvas = "nat \<times> nat \<Rightarrow> 8 word \<times> 8 word \<times> 8 word \<times> 8 word"

definition getImageData :: "canvas \<Rightarrow> nat \<Rightarrow> nat \<Rightarrow> 8 word list" where
  "getImageData ctx width height =
     concat (map (\<lambda>i. case ctx (i mod width, i div width) of (pr, pg, pb, pa) \<Rightarrow> [pr, pg, pb, pa])
       [0..<width * height])"

definition CHAR_ASPECT_RATIO :: real where
  "CHAR_ASPECT_RATIO = fl 0.6"

record blockSum =
  totalR :: nat
  totalG :: nat
  totalB :: nat
  count :: nat

text \<open>
  The two loops over the pixels of a block, \<^verbatim>\<open>px\<close> inside \<^verbatim>\<open>py\<close>. Each stops at the
  first index that leaves the block or the frame.
\<close>

function pxLoop :: "8 word list \<Rightarrow> nat \<Rightarrow> nat \<Rightarrow> nat \<Rightarrow> nat \<Rightarrow> nat \<Rightarrow> blockSum \<Rightarrow> blockSum" where
  "pxLoop pixels width blockWidth pixelX rowY px acc =
     (if px < blockWidth \<and> pixelX + px < width then
        let i = (rowY * width + (pixelX + px)) * 4
        in pxLoop pixels width blockWidth pixelX rowY (px + 1)
             \<lparr>totalR = totalR acc + unat (pixels ! i),
              totalG = totalG acc + unat (pixels ! (i + 1)),
              totalB = totalB acc + unat (pixels ! (i + 2)),
              count = count acc + 1\<rparr>
      else acc)"
  by pat_completeness auto
termination
  by (relation "measure (\<lambda>(pixels, width, blockWidth, pixelX, rowY, px, acc). blockWidth - px)") auto

function pyLoop ::
  "8 word list \<Rightarrow> nat \<Rightarrow> nat \<Rightarrow> nat \<Rightarrow> nat \<Rightarrow> nat \<Rightarrow> nat \<Rightarrow> nat \<Rightarrow> blockSum \<Rightarrow> blockSum" where
  "pyLoop pixels width height blockWidth blockHeight pixelX pixelY py acc =
     (if py < blockHeight \<and> pixelY + py < height then
        pyLoop pixels width height blockWidth blockHeight pixelX pixelY (py + 1)
          (pxLoop pixels width blockWidth pixelX (pixelY + py) 0 acc)
      else acc)"
  by pat_completeness auto
termination
  by (relation "measure (\<lambda>(pixels, width, height, blockWidth, blockHeight, pixelX, pixelY, py, acc).
        blockHeight - py)") auto

text \<open>
  The sums and the count of the block of cell \<open>(cx, cy)\<close>. The loops that call this run only
  for positive steps, where the floors and ceilings are not negative.
\<close>

definition sampleBlock ::
  "8 word list \<Rightarrow> nat \<Rightarrow> nat \<Rightarrow> real \<Rightarrow> real \<Rightarrow> nat \<Rightarrow> nat \<Rightarrow> blockSum" where
  "sampleBlock pixels width height stepX stepY cx cy =
     (let pixelX = nat \<lfloor>fl (real cx * stepX)\<rfloor>;
          pixelY = nat \<lfloor>fl (real cy * stepY)\<rfloor>;
          blockWidth = nat \<lceil>stepX\<rceil>;
          blockHeight = nat \<lceil>stepY\<rceil>
      in pyLoop pixels width height blockWidth blockHeight pixelX pixelY 0
           \<lparr>totalR = 0, totalG = 0, totalB = 0, count = 0\<rparr>)"

text \<open>
  The body of the loop over \<^verbatim>\<open>x\<close>: \<open>None\<close> is the \<^verbatim>\<open>continue\<close> of an empty block.
  \<^verbatim>\<open>avgR\<close>, \<^verbatim>\<open>avgG\<close> and \<^verbatim>\<open>avgB\<close> are assigned twice in the source; the second
  values are \<open>avgR'\<close>, \<open>avgG'\<close> and \<open>avgB'\<close>, and the three values of \<^verbatim>\<open>gray\<close> are
  \<open>gray\<close>, \<open>gray'\<close> and \<open>gray''\<close>.
\<close>

definition sampleCell ::
  "ASCIISettings \<Rightarrow> 8 word list \<Rightarrow> nat \<Rightarrow> nat \<Rightarrow> real \<Rightarrow> real \<Rightarrow> nat \<Rightarrow> nat \<Rightarrow> ASCIIChar option" where
  "sampleCell settings pixels width height stepX stepY cx cy =
     (let pixelX = nat \<lfloor>fl (real cx * stepX)\<rfloor>;
          pixelY = nat \<lfloor>fl (real cy * stepY)\<rfloor>;
          acc = sampleBlock pixels width height stepX stepY cx cy
      in if count acc = 0 then None
         else
           let avgR = fl (real (totalR acc) / real (count acc));
               avgG = fl (real (totalG acc) / real (count acc));
               avgB = fl (real (totalB acc) / real (count acc));
               blended = applyBlendMode avgR avgG avgB (blendMode settings);
               avgR' = r blended;
               avgG' = g blended;
               avgB' = b blended;
               gray = rgbToGrayscale avgR' avgG' avgB';
               gray' = applyBrightness gray (brightness settings);
               gray'' = applyContrast gray' (contrast settings);
               ch = getCharacterForBrightness gray'' (characterSet settings) (invert settings);
               col = (case colorMode settings of
                        Monochrome \<Rightarrow> monochromeColor settings
                      | Gradient \<Rightarrow> interpolateGradient (gradientColors settings) (fl (gray'' / 255))
                      | Custom \<Rightarrow> monochromeColor settings
                      | Original \<Rightarrow> rgbToHex (Math_round avgR') (Math_round avgG') (Math_round avgB'))
           in Some \<lparr>char = ch, color = col, cellX = pixelX, cellY = pixelY\<rparr>)"

text \<open>
  What a call does instead of returning a result: \<open>TypeError\<close> and \<open>IndexSizeError\<close> are
  the exceptions of \<^verbatim>\<open>getImageData\<close>, \<open>RangeError\<close> the exception of an array that outgrows
  its largest length of \<open>2^32 - 1\<close> elements, \<open>NeverReturns\<close> stands for a call that does not
  come back (a loop without end, a seek that never completes), and \<open>NotStarted\<close> for an
  export that returns at once because a canvas or a context is missing.
\<close>

datatype failure = TypeError | IndexSizeError | RangeError | NeverReturns | NotStarted

text \<open>
  With \<^verbatim>\<open>pixelSize\<close> zero both steps are zero, \<^verbatim>\<open>cols\<close> and \<^verbatim>\<open>rows\<close> are
  \<^verbatim>\<open>Infinity\<close>, no block has a pixel and the loops never end. With a negative
  \<^verbatim>\<open>pixelSize\<close> they are negative and no loop runs. With a positive \<^verbatim>\<open>pixelSize\<close> so small
  that \<^verbatim>\<open>rows\<close> is \<open>2^32\<close> or more, or that there is a row and \<^verbatim>\<open>cols\<close> is \<open>2^32\<close> or more
  (Infinity among them), \<^verbatim>\<open>push\<close> fails before the loops end.
\<close>

definition convertFrameToASCII ::
  "canvas \<Rightarrow> nat \<Rightarrow> nat \<Rightarrow> ASCIISettings \<Rightarrow> failure + ASCIIChar list list" where
  "convertFrameToASCII ctx width height settings =
     (if 2 ^ 31 \<le> width \<or> 2 ^ 31 \<le> height then Inl TypeError
      else if width = 0 \<or> height = 0 then Inl IndexSizeError
      else
        let pixels = getImageData ctx width height;
            stepX = pixelSize settings;
            stepY = fl (pixelSize settings / CHAR_ASPECT_RATIO);
            cols = \<lfloor>fl (real width / stepX)\<rfloor>;
            rows = \<lfloor>fl (real height / stepY)\<rfloor>
        in if pixelSize settings = 0 then Inl NeverReturns
           else if 2 ^ 32 \<le> rows \<or> (1 \<le> rows \<and> 2 ^ 32 \<le> cols) then Inl RangeError
           else Inr (map (\<lambda>cy. List.map_filter
                               (\<lambda>cx. sampleCell settings pixels width height stepX stepY cx cy)
                               [0..<nat cols])
                     [0..<nat rows]))"

definition DEFAULT_SETTINGS :: ASCIISettings where
  "DEFAULT_SETTINGS =
     \<lparr>characterSet = ''.:-=+*#%@'', pixelSize = 8, colorMode = Original,
      monochromeColor = ''#00ff88'', gradientColors = [''#00ff88'', ''#ff00ff'', ''#00ffff''],
      backgroundColor = ''#0a0a0f'', transparentBackground = False, blendMode = Normal,
      contrast = 1, brightness = 1, invert = False, fontSize = 10\<rparr>"

section \<open>Gradient stops in the control panel\<close>

text \<open>
  The three handlers of \<^verbatim>\<open>ControlPanel\<close>. Each calls \<^verbatim>\<open>onSettingsChange\<close> with the new
  settings, or does nothing; the model returns the settings the parent holds afterwards.
  \<^verbatim>\<open>filter((_, i) => i !== index)\<close> filters the stops paired with their positions.
  An assignment beyond the end of a JavaScript array extends it and leaves holes, which read as
  \<^verbatim>\<open>undefined\<close>; the model writes the holes as the string \<^verbatim>\<open>undefined\<close>, as
  \<^const>\<open>elemOrUndefined\<close> does.
\<close>

definition addGradientColor :: "ASCIISettings \<Rightarrow> ASCIISettings" where
  "addGradientColor settings =
     (if length (gradientColors settings) < 8
      then settings\<lparr>gradientColors := gradientColors settings @ [''#ffffff'']\<rparr>
      else settings)"

definition removeGradientColor :: "ASCIISettings \<Rightarrow> nat \<Rightarrow> ASCIISettings" where
  "removeGradientColor settings index =
     (if length (gradientColors settings) > 2
      then let newColors = map snd (filter (\<lambda>(i, c). i \<noteq> index)
                                     (enumerate 0 (gradientColors settings)))
           in settings\<lparr>gradientColors := newColors\<rparr>
      else settings)"

definition updateGradientColor :: "ASCIISettings \<Rightarrow> nat \<Rightarrow> string \<Rightarrow> ASCIISettings" where
  "updateGradientColor settings index col =
     (let newColors = gradientColors settings;
          newColors' = (if index < length newColors then newColors[index := col]
                        else newColors @ replicate (index - length newColors) ''undefined'' @ [col])
      in settings\<lparr>gradientColors := newColors'\<rparr>)"

definition stopCountOk :: "ASCIISettings \<Rightarrow> bool" where
  "stopCountOk settings =
     (2 \<le> length (gradientColors settings) \<and> length (gradientColors settings) \<le> 8)"

section \<open>Export of a frame sequence\<close>

text \<open>
  \<^verbatim>\<open>exportAsGIF\<close> of the preview component. What the browser does is an environment: whether
  the canvases and their 2D contexts exist, the pixels on the source canvas after the drawing of
  iteration \<open>i\<close> (the GIF patch composited by \<^verbatim>\<open>renderGifFrame\<close> and \<^verbatim>\<open>drawImage\<close>, or the
  video frame after the seek), whether the frame canvas of iteration \<open>i\<close> has a 2D context, and
  whether the \<^verbatim>\<open>seeked\<close> event of iteration \<open>i\<close> ever fires. The encoder's list of frames is
  the result; a frame is the grid that \<^verbatim>\<open>renderASCIIToCanvas\<close> painted and the delay given to
  \<^verbatim>\<open>gif.addFrame\<close>. Of a \<^verbatim>\<open>GifFrame\<close> the loop reads only the delay; the patch and its
  position are drawn by the browser. The media element is a video, with its duration, or an
  image; the duration is the finite number it is once the metadata of the video is loaded.
  The progress display and the encoding after the loop (\<^verbatim>\<open>gif.render\<close>) are not part of
  the model.
\<close>

record GifFrame =
  delay :: real
  disposalType :: nat

datatype media = VideoElement real | ImageElement

record exportEnv =
  contextsReady :: bool
  sourceCanvasAfter :: "nat \<Rightarrow> canvas"
  frameCtxReady :: "nat \<Rightarrow> bool"
  seekCompletes :: "nat \<Rightarrow> bool"

record outputFrame =
  frameCanvas :: "ASCIIChar list list"
  frameDelay :: real

text \<open>
  The part the three branches share: sample the source canvas, paint, and add the frame when
  the frame canvas has a context. An exception of the sampler ends the export.
\<close>

definition renderExportFrame ::
  "exportEnv \<Rightarrow> nat \<Rightarrow> nat \<Rightarrow> ASCIISettings \<Rightarrow> nat \<Rightarrow> real \<Rightarrow> outputFrame list
     \<Rightarrow> failure + outputFrame list" where
  "renderExportFrame env originalWidth originalHeight settings i d frames =
     (case convertFrameToASCII (sourceCanvasAfter env i) originalWidth originalHeight settings of
        Inl e \<Rightarrow> Inl e
      | Inr asciiChars \<Rightarrow>
          Inr (if frameCtxReady env i then frames @ [\<lparr>frameCanvas = asciiChars, frameDelay = d\<rparr>]
               else frames))"

function exportGifLoop ::
  "exportEnv \<Rightarrow> nat \<Rightarrow> nat \<Rightarrow> ASCIISettings \<Rightarrow> GifFrame list \<Rightarrow> nat \<Rightarrow> nat \<Rightarrow> outputFrame list
     \<Rightarrow> failure + outputFrame list" where
  "exportGifLoop env originalWidth originalHeight settings gifFrames totalFrames i frames =
     (if i < totalFrames then
        let d = (if delay (gifFrames ! i) = 0 then 100 else delay (gifFrames ! i))
        in case renderExportFrame env originalWidth originalHeight settings i d frames of
             Inl e \<Rightarrow> Inl e
           | Inr frames' \<Rightarrow>
               exportGifLoop env originalWidth originalHeight settings gifFrames totalFrames
                 (i + 1) frames'
      else Inr frames)"
  by pat_completeness auto
termination
  by (relation "measure (\<lambda>(env, originalWidth, originalHeight, settings, gifFrames, totalFrames,
        i, frames). totalFrames - i)") auto

function exportVideoLoop ::
  "exportEnv \<Rightarrow> nat \<Rightarrow> nat \<Rightarrow> ASCIISettings \<Rightarrow> real \<Rightarrow> int \<Rightarrow> nat \<Rightarrow> outputFrame list
     \<Rightarrow> failure + outputFrame list" where
  "exportVideoLoop env originalWidth originalHeight settings fps totalFrames i frames =
     (if int i < totalFrames then
        if \<not> seekCompletes env i then Inl NeverReturns
        else case renderExportFrame env originalWidth originalHeight settings i (fl (1000 / fps))
                    frames of
               Inl e \<Rightarrow> Inl e
             | Inr frames' \<Rightarrow>
                 exportVideoLoop env originalWidth originalHeight settings fps totalFrames
                   (i + 1) frames'
      else Inr frames)"
  by pat_completeness auto
termination
  by (relation "measure (\<lambda>(env, originalWidth, originalHeight, settings, fps, totalFrames,
        i, frames). nat totalFrames - i)") auto

definition isAnimatedGif :: "media \<Rightarrow> GifFrame list option \<Rightarrow> bool" where
  "isAnimatedGif video gifFrames =
     (case video of
        VideoElement duration \<Rightarrow> False
      | ImageElement \<Rightarrow> (case gifFrames of None \<Rightarrow> False | Some fs \<Rightarrow> length fs > 1))"

definition exportAsGIF ::
  "exportEnv \<Rightarrow> media \<Rightarrow> GifFrame list option \<Rightarrow> nat \<Rightarrow> nat \<Rightarrow> ASCIISettings
     \<Rightarrow> failure + outputFrame list" where
  "exportAsGIF env video gifFrames originalWidth originalHeight settings =
     (if \<not> contextsReady env then Inl NotStarted
      else if isAnimatedGif video gifFrames then
        exportGifLoop env originalWidth originalHeight settings (the gifFrames)
          (length (the gifFrames)) 0 []
      else case video of
             VideoElement duration \<Rightarrow>
               let fps = 15;
                   totalFrames = min \<lfloor>fl (duration * fps)\<rfloor> 150
               in exportVideoLoop env originalWidth originalHeight settings fps totalFrames 0 []
           | ImageElement \<Rightarrow>
               renderExportFrame env originalWidth originalHeight settings 0 100 [])"

section \<open>Notions used to state the properties\<close>

text \<open>
  The pixels of a cell, in the words of the specification: every pixel of the frame inside the
  sampling rectangle of the cell, which starts at the cell's origin and is \<open>ceil stepX\<close> wide
  and \<open>ceil stepY\<close> high; the part of the rectangle beyond the frame is skipped. The average
  colour of the cell is, for each channel, the sum over these pixels divided by their number.
\<close>

definition cellPixels :: "nat \<Rightarrow> nat \<Rightarrow> real \<Rightarrow> real \<Rightarrow> nat \<Rightarrow> nat \<Rightarrow> (nat \<times> nat) list" where
  "cellPixels width height stepX stepY cx cy =
     (let left = nat \<lfloor>fl (real cx * stepX)\<rfloor>;
          top = nat \<lfloor>fl (real cy * stepY)\<rfloor>
      in concat (map (\<lambda>py. map (\<lambda>px. (px, py)) [left..<min (left + nat \<lceil>stepX\<rceil>) width])
                  [top..<min (top + nat \<lceil>stepY\<rceil>) height]))"

definition redOf :: "8 word \<times> 8 word \<times> 8 word \<times> 8 word \<Rightarrow> nat" where
  "redOf p = unat (fst p)"

definition greenOf :: "8 word \<times> 8 word \<times> 8 word \<times> 8 word \<Rightarrow> nat" where
  "greenOf p = unat (fst (snd p))"

definition blueOf :: "8 word \<times> 8 word \<times> 8 word \<times> 8 word \<Rightarrow> nat" where
  "blueOf p = unat (fst (snd (snd p)))"

definition averageColor :: "canvas \<Rightarrow> (nat \<times> nat) list \<Rightarrow> real rgb" where
  "averageColor ctx pts =
     \<lparr>r = fl (real (sum_list (map (\<lambda>p. redOf (ctx p)) pts)) / real (length pts)),
      g = fl (real (sum_list (map (\<lambda>p. greenOf (ctx p)) pts)) / real (length pts)),
      b = fl (real (sum_list (map (\<lambda>p. blueOf (ctx p)) pts)) / real (length pts))\<rparr>"

text \<open>A colour rounded to hex, and the intensity that selects the glyph of a colour.\<close>

definition roundedHex :: "real rgb \<Rightarrow> string" where
  "roundedHex c = rgbToHex (Math_round (r c)) (Math_round (g c)) (Math_round (b c))"

definition glyphIntensity :: "ASCIISettings \<Rightarrow> real rgb \<Rightarrow> real" where
  "glyphIntensity settings c =
     applyContrast (applyBrightness (rgbToGrayscale (r c) (g c) (b c)) (brightness settings))
       (contrast settings)"

text \<open>The grid of a frame that the sampler accepts.\<close>

definition sampledGrid :: "canvas \<Rightarrow> nat \<Rightarrow> nat \<Rightarrow> ASCIISettings \<Rightarrow> ASCIIChar list list" where
  "sampledGrid ctx width height settings =
     (case convertFrameToASCII ctx width height settings of Inl e \<Rightarrow> [] | Inr grid \<Rightarrow> grid)"

text \<open>
  A hex string in the form \<^const>\<open>rgbToHex\<close> writes: \<^verbatim>\<open>#\<close> and six digits, letters in
  lower case. \<open>toLowerCase\<close> is \<^verbatim>\<open>String.prototype.toLowerCase\<close> on ASCII.
\<close>

definition isLowerHexDigit :: "char \<Rightarrow> bool" where
  "isLowerHexDigit c = (c \<in> set ''0123456789abcdef'')"

definition isCanonicalHex :: "string \<Rightarrow> bool" where
  "isCanonicalHex h =
     (case h of [] \<Rightarrow> False
      | c # ds \<Rightarrow> c = CHR ''#'' \<and> length ds = 6 \<and> list_all isLowerHexDigit ds)"

definition toLowerCase :: "char \<Rightarrow> char" where
  "toLowerCase c =
     (case map_of (zip ''ABCDEFGHIJKLMNOPQRSTUVWXYZ'' ''abcdefghijklmnopqrstuvwxyz'') c of
        None \<Rightarrow> c
      | Some l \<Rightarrow> l)"

text \<open>Inputs of the examples.\<close>

definition uniformCanvas :: "8 word \<Rightarrow> canvas" where
  "uniformCanvas v = (\<lambda>p. (v, v, v, 255))"

definition differenceSettings :: ASCIISettings where
  "differenceSettings = DEFAULT_SETTINGS\<lparr>pixelSize := 2, blendMode := Difference\<rparr>"

definition readyEnv :: exportEnv where
  "readyEnv =
     \<lparr>contextsReady = True, sourceCanvasAfter = (\<lambda>i. uniformCanvas 100),
      frameCtxReady = (\<lambda>i. True), seekCompletes = (\<lambda>i. True)\<rparr>"

text \<open>
  Two GIF sources of two frames: the delays 100 and 200 with the disposals clear and keep, and
  the same with a first delay of zero.
\<close>

definition twoGifFrames :: "GifFrame list" where
  "twoGifFrames = [\<lparr>delay = 100, disposalType = 2\<rparr>, \<lparr>delay = 200, disposalType = 1\<rparr>]"

definition zeroDelayGifFrames :: "GifFrame list" where
  "zeroDelayGifFrames = [\<lparr>delay = 0, disposalType = 2\<rparr>, \<lparr>delay = 200, disposalType = 1\<rparr>]"

section \<open>Properties of the rounding\<close>

declare expUp.simps [simp del] expDown.simps [simp del]

lemma expUp_bounds:
  "1 \<le> x \<Longrightarrow> 2 powi (expUp x) \<le> x \<and> x < 2 powi (expUp x + 1)"
proof (induction x rule: expUp.induct)
  case (1 x)
  show ?case
  proof (cases "2 \<le> x")
    case True
    then have "1 \<le> x / 2" by simp
    from "1.IH" [OF True this]
    have "2 powi (expUp (x / 2)) \<le> x / 2" "x / 2 < 2 powi (expUp (x / 2) + 1)"
      by simp_all
    moreover have "expUp x = expUp (x / 2) + 1"
      using True by (subst expUp.simps) simp
    ultimately show ?thesis
      by (simp add: power_int_add)
  next
    case False
    then have "expUp x = 0" by (subst expUp.simps) simp
    with False "1.prems" show ?thesis by simp
  qed
qed

lemma expDown_bounds:
  "0 < x \<Longrightarrow> x < 2 \<Longrightarrow> 2 powi (expDown x) \<le> x \<and> x < 2 powi (expDown x + 1)"
proof (induction x rule: expDown.induct)
  case (1 x)
  show ?case
  proof (cases "x < 1")
    case True
    with "1.prems" have c: "0 < x \<and> x < 1" by simp
    from "1.prems" True have "0 < 2 * x" "2 * x < 2" by simp_all
    from "1.IH" [OF c this]
    have "2 powi (expDown (2 * x)) \<le> 2 * x" "2 * x < 2 powi (expDown (2 * x) + 1)"
      by simp_all
    moreover have "expDown x = expDown (2 * x) - 1"
      using c by (subst expDown.simps) simp
    ultimately show ?thesis
      by (simp add: power_int_add power_int_diff)
  next
    case False
    then have "expDown x = 0" by (subst expDown.simps) simp
    with False "1.prems" show ?thesis by simp
  qed
qed

lemma exponent_bounds:
  assumes "0 < x"
  shows "2 powi (exponent x) \<le> x \<and> x < 2 powi (exponent x + 1)"
proof (cases "1 \<le> x")
  case True
  then show ?thesis using expUp_bounds [of x] by (simp add: exponent_def)
next
  case False
  with assms show ?thesis using expDown_bounds [of x] by (simp add: exponent_def)
qed

lemma exponent_mono:
  assumes "0 < x" "x \<le> y"
  shows "exponent x \<le> exponent y"
proof -
  from assms have "0 < y" by simp
  from exponent_bounds [OF assms(1)] exponent_bounds [OF this] assms(2)
  have "(2::real) powi (exponent x) < 2 powi (exponent y + 1)" by linarith
  then have "exponent x < exponent y + 1"
    by (smt (verit) power_int_increasing)
  then show ?thesis by simp
qed

lemma roundTiesToEven_error: "\<bar>real_of_int (roundTiesToEven y) - y\<bar> \<le> 1 / 2"
  unfolding roundTiesToEven_def Let_def by (auto; linarith)

lemma roundTiesToEven_floor:
  "\<lfloor>y\<rfloor> \<le> roundTiesToEven y \<and> roundTiesToEven y \<le> \<lfloor>y\<rfloor> + 1"
  unfolding roundTiesToEven_def Let_def by auto

lemma roundTiesToEven_int [simp]: "roundTiesToEven (real_of_int k) = k"
  by (simp add: roundTiesToEven_def)

lemma roundTiesToEven_mono:
  assumes "y \<le> z"
  shows "roundTiesToEven y \<le> roundTiesToEven z"
proof (cases "\<lfloor>y\<rfloor> = \<lfloor>z\<rfloor>")
  case True
  with assms show ?thesis
    unfolding roundTiesToEven_def Let_def by (auto; linarith)
next
  case False
  with assms have "\<lfloor>y\<rfloor> + 1 \<le> \<lfloor>z\<rfloor>"
    using floor_mono [OF assms] by linarith
  with roundTiesToEven_floor [of y] roundTiesToEven_floor [of z] show ?thesis by linarith
qed

text \<open>The relative error of one rounding is at most \<open>2^-53\<close>.\<close>

lemma fl_error: "\<bar>fl y - y\<bar> \<le> \<bar>y\<bar> / 2 ^ 53"
proof (cases "y = 0")
  case True
  then show ?thesis by (simp add: fl_def)
next
  case False
  define e where "e = exponent \<bar>y\<bar>"
  define u :: real where "u = 2 powi (e - 52)"
  have upos: "0 < u" by (simp add: u_def)
  from False have "0 < \<bar>y\<bar>" by simp
  from exponent_bounds [OF this] have lo: "2 powi e \<le> \<bar>y\<bar>" by (simp add: e_def)
  have "(2::real) powi e = u * 2 ^ 52"
    by (simp add: u_def power_int_diff)
  with lo have ulo: "u * 2 ^ 52 \<le> \<bar>y\<bar>" by simp
  have "fl y = real_of_int (roundTiesToEven (y / u)) * u"
    using False by (simp add: fl_def Let_def e_def u_def)
  then have "fl y - y = (real_of_int (roundTiesToEven (y / u)) - y / u) * u"
    using upos by (simp add: algebra_simps)
  then have "\<bar>fl y - y\<bar> = \<bar>real_of_int (roundTiesToEven (y / u)) - y / u\<bar> * u"
    using upos by (simp add: abs_mult)
  also have "\<dots> \<le> (1 / 2) * u"
    using roundTiesToEven_error [of "y / u"] upos by (intro mult_right_mono) simp_all
  also have "\<dots> \<le> \<bar>y\<bar> / 2 ^ 53"
    using ulo by simp
  finally show ?thesis .
qed

text \<open>
  A positive number is rounded inside its binade, so the rounding is monotone on the numbers
  that are not negative.
\<close>

lemma fl_zero [simp]: "fl 0 = 0"
  by (simp add: fl_def)

lemma fl_binade:
  assumes "0 < x"
  shows "2 powi (exponent x) \<le> fl x \<and> fl x \<le> 2 powi (exponent x + 1)"
proof -
  define e where "e = exponent x"
  define u :: real where "u = 2 powi (e - 52)"
  have upos: "0 < u" by (simp add: u_def)
  from exponent_bounds [OF assms] have b: "2 powi e \<le> x" "x < 2 powi (e + 1)"
    by (simp_all add: e_def)
  have p: "(2::real) powi e = 2 ^ 52 * u" "(2::real) powi (e + 1) = 2 ^ 53 * u"
    by (simp_all add: u_def power_int_diff power_int_add)
  from b p upos have q: "real_of_int (2 ^ 52) \<le> x / u" "x / u \<le> real_of_int (2 ^ 53)"
    by (simp_all add: pos_le_divide_eq pos_divide_le_eq)
  have "2 ^ 52 \<le> roundTiesToEven (x / u)"
    using roundTiesToEven_mono [OF q(1)] by (simp only: roundTiesToEven_int)
  moreover have "roundTiesToEven (x / u) \<le> 2 ^ 53"
    using roundTiesToEven_mono [OF q(2)] by (simp only: roundTiesToEven_int)
  ultimately have "real_of_int (2 ^ 52) \<le> real_of_int (roundTiesToEven (x / u))"
    "real_of_int (roundTiesToEven (x / u)) \<le> real_of_int (2 ^ 53)"
    by (simp_all only: of_int_le_iff)
  then have "(2::real) ^ 52 \<le> real_of_int (roundTiesToEven (x / u))"
    "real_of_int (roundTiesToEven (x / u)) \<le> 2 ^ 53"
    by simp_all
  then have "2 ^ 52 * u \<le> real_of_int (roundTiesToEven (x / u)) * u"
    "real_of_int (roundTiesToEven (x / u)) * u \<le> 2 ^ 53 * u"
    using upos by (simp_all add: mult_right_mono)
  moreover have "fl x = real_of_int (roundTiesToEven (x / u)) * u"
    using assms by (simp add: fl_def Let_def e_def u_def)
  ultimately show ?thesis
    using p by (simp add: e_def)
qed

lemma fl_nonneg: "0 \<le> x \<Longrightarrow> 0 \<le> fl x"
proof (cases "x = 0")
  case False
  assume "0 \<le> x"
  with False have "0 < x" by simp
  from fl_binade [OF this] have "(2::real) powi exponent x \<le> fl x" by simp
  moreover have "(0::real) < 2 powi exponent x" by simp
  ultimately show ?thesis by linarith
qed simp

lemma fl_mono:
  assumes "0 \<le> x" "x \<le> y"
  shows "fl x \<le> fl y"
proof (cases "x = 0")
  case True
  with assms show ?thesis by (simp add: fl_nonneg)
next
  case False
  with assms have x: "0 < x" and y: "0 < y" by simp_all
  show ?thesis
  proof (cases "exponent x = exponent y")
    case True
    define u :: real where "u = 2 powi (exponent x - 52)"
    have upos: "0 < u" by (simp add: u_def)
    from assms(2) upos have "x / u \<le> y / u" by (simp add: divide_right_mono)
    then have "roundTiesToEven (x / u) \<le> roundTiesToEven (y / u)"
      by (rule roundTiesToEven_mono)
    then have "real_of_int (roundTiesToEven (x / u)) * u \<le> real_of_int (roundTiesToEven (y / u)) * u"
      using upos by (simp add: mult_right_mono)
    moreover have "fl x = real_of_int (roundTiesToEven (x / u)) * u"
      using x by (simp add: fl_def Let_def u_def)
    moreover have "fl y = real_of_int (roundTiesToEven (y / u)) * u"
      using y True by (simp add: fl_def Let_def u_def)
    ultimately show ?thesis by simp
  next
    case False
    with exponent_mono [OF x assms(2)] have "exponent x + 1 \<le> exponent y" by simp
    then have "(2::real) powi (exponent x + 1) \<le> 2 powi exponent y"
      by (intro power_int_increasing) simp_all
    with fl_binade [OF x] fl_binade [OF y] show ?thesis by linarith
  qed
qed

text \<open>
  A number of at most 53 significant bits is a double: its rounding is the number itself.
\<close>

lemma fl_dyadic:
  assumes "0 < m" "m < 2 ^ 53"
  shows "fl (real_of_int m * 2 powi e) = real_of_int m * 2 powi e"
proof -
  define x where "x = real_of_int m * 2 powi e"
  have xpos: "0 < x" using assms(1) by (simp add: x_def)
  define E where "E = exponent x"
  from exponent_bounds [OF xpos] have lo: "2 powi E \<le> x" by (simp add: E_def)
  from assms(2) have "real_of_int m < real_of_int (2 ^ 53)" by (simp only: of_int_less_iff)
  then have "real_of_int m < 2 ^ 53" by simp
  then have "x < 2 ^ 53 * 2 powi e"
    by (simp add: x_def)
  also have "\<dots> = 2 powi (53 + e)"
    by (simp add: power_int_add)
  finally have "(2::real) powi E < 2 powi (53 + e)" using lo by linarith
  then have "E < 53 + e"
    by (smt (verit) power_int_increasing)
  then have j: "e - (E - 52) = int (nat (e - (E - 52)))" by simp
  define j where "j = nat (e - (E - 52))"
  note j = j [folded j_def]
  define u :: real where "u = 2 powi (E - 52)"
  have upos: "0 < u" by (simp add: u_def)
  have "(2::real) powi e = 2 powi (e - (E - 52)) * u"
    by (simp add: u_def power_int_diff)
  also have "\<dots> = 2 ^ j * u" by (simp add: j)
  finally have xe: "x = real_of_int (m * 2 ^ j) * u" by (simp add: x_def)
  with upos have "x / u = real_of_int (m * 2 ^ j)" by simp
  then have "roundTiesToEven (x / u) = m * 2 ^ j" by (simp only: roundTiesToEven_int)
  moreover have "fl x = real_of_int (roundTiesToEven (x / u)) * u"
    using xpos by (simp add: fl_def Let_def E_def u_def)
  ultimately have "fl x = x" using xe by simp
  then show ?thesis by (simp add: x_def)
qed

lemma fl_nat:
  assumes "n < 2 ^ 53"
  shows "fl (real n) = real n"
proof (cases "n = 0")
  case False
  with assms have "0 < int n" "int n < 2 ^ 53" by simp_all
  from fl_dyadic [OF this, of 0] show ?thesis by simp
qed simp

lemma fl_half:
  assumes "n < 2 ^ 52"
  shows "fl (real n + 1 / 2) = real n + 1 / 2"
proof -
  from assms have "0 < 2 * int n + 1" "2 * int n + 1 < 2 ^ 53" by simp_all
  from fl_dyadic [OF this, of "- 1"] show ?thesis
    by (simp add: power_int_minus field_simps)
qed

lemma fl_pos: "0 < x \<Longrightarrow> 0 < fl x"
proof -
  assume "0 < x"
  from fl_binade [OF this] have "(2::real) powi exponent x \<le> fl x" by simp
  moreover have "(0::real) < 2 powi exponent x" by simp
  ultimately show ?thesis by linarith
qed

text \<open>
  A number of the form \<open>k / 2^21\<close> with \<open>k < 2^53\<close> is a double, so the rounding of a smaller
  number does not pass it.
\<close>

lemma fl_le_dyadic:
  assumes "0 \<le> x" "x \<le> real_of_int k / 2 ^ 21" "0 < k" "k < 2 ^ 53"
  shows "fl x \<le> real_of_int k / 2 ^ 21"
proof -
  have p: "(2::real) powi (- 21) = 1 / 2 ^ 21"
    by (simp add: power_int_def inverse_eq_divide power_one_over)
  have d: "real_of_int k / 2 ^ 21 = real_of_int k * 2 powi (- 21)"
    unfolding p by simp
  have "fl x \<le> fl (real_of_int k / 2 ^ 21)"
    using assms(1,2) by (rule fl_mono)
  also have "\<dots> = real_of_int k / 2 ^ 21"
    unfolding d using assms(3,4) by (rule fl_dyadic)
  finally show ?thesis .
qed

text \<open>
  A rounded number is a double: it has the form \<open>k * 2^e\<close> with \<open>2^52 \<le> k \<le> 2^53\<close>, rounding
  it again changes nothing, and the rounding of a whole number is whole.
\<close>

lemma fl_repr:
  assumes "0 < x"
  shows "\<exists>k. 2 ^ 52 \<le> k \<and> k \<le> 2 ^ 53 \<and> fl x = real_of_int k * 2 powi (exponent x - 52)"
proof -
  define e where "e = exponent x"
  define u :: real where "u = 2 powi (e - 52)"
  have upos: "0 < u" by (simp add: u_def)
  from exponent_bounds [OF assms] have b: "2 powi e \<le> x" "x < 2 powi (e + 1)"
    by (simp_all add: e_def)
  have p: "(2::real) powi e = 2 ^ 52 * u" "(2::real) powi (e + 1) = 2 ^ 53 * u"
    by (simp_all add: u_def power_int_diff power_int_add)
  from b p upos have q: "real_of_int (2 ^ 52) \<le> x / u" "x / u \<le> real_of_int (2 ^ 53)"
    by (simp_all add: pos_le_divide_eq pos_divide_le_eq)
  have "2 ^ 52 \<le> roundTiesToEven (x / u)"
    using roundTiesToEven_mono [OF q(1)] by (simp only: roundTiesToEven_int)
  moreover have "roundTiesToEven (x / u) \<le> 2 ^ 53"
    using roundTiesToEven_mono [OF q(2)] by (simp only: roundTiesToEven_int)
  moreover have "fl x = real_of_int (roundTiesToEven (x / u)) * u"
    using assms by (simp add: fl_def Let_def e_def u_def)
  ultimately show ?thesis
    unfolding u_def e_def by blast
qed

lemma fl_idem:
  assumes "0 \<le> x"
  shows "fl (fl x) = fl x"
proof (cases "x = 0")
  case True
  then show ?thesis by simp
next
  case False
  with assms have "0 < x" by simp
  from fl_repr [OF this] obtain k where k: "2 ^ 52 \<le> k" "k \<le> 2 ^ 53"
    and f: "fl x = real_of_int k * 2 powi (exponent x - 52)" by blast
  show ?thesis
  proof (cases "k < 2 ^ 53")
    case True
    moreover from k(1) have "0 < k" by simp
    ultimately show ?thesis
      unfolding f by (intro fl_dyadic)
  next
    case False
    with k(2) have "k = 2 ^ 53" by simp
    then have "fl x = 2 ^ 53 * 2 powi (exponent x - 52)" using f by simp
    also have "\<dots> = real_of_int 1 * 2 powi (exponent x + 1)"
      by (simp add: power_int_diff power_int_add)
    finally have g: "fl x = real_of_int 1 * 2 powi (exponent x + 1)" .
    show ?thesis
      unfolding g by (intro fl_dyadic) simp_all
  qed
qed

lemma fl_int:
  assumes "0 \<le> c" "c < 2 ^ 53"
  shows "fl (real_of_int c) = real_of_int c"
proof (cases "c = 0")
  case False
  with assms(1) have "0 < c" by simp
  from fl_dyadic [OF this assms(2), of 0] show ?thesis by simp
qed simp

lemma fl_nat_whole: "\<exists>k. fl (real m) = real_of_int k"
proof (cases "m < 2 ^ 53")
  case True
  then have "fl (real m) = real_of_int (int m)" by (simp add: fl_nat)
  then show ?thesis by blast
next
  case False
  then have "2 ^ 53 \<le> m" by simp
  then have big: "(2::real) ^ 53 \<le> real m"
    by (metis of_nat_le_iff of_nat_numeral of_nat_power)
  then have pos: "0 < real m" by (rule less_le_trans [rotated]) simp
  from exponent_bounds [OF pos] big have "(2::real) powi 53 < 2 powi (exponent (real m) + 1)"
    by simp
  then have "53 < exponent (real m) + 1"
    by (smt (verit) power_int_increasing)
  then have e: "0 \<le> exponent (real m) - 52" by simp
  from fl_repr [OF pos] obtain k where
    f: "fl (real m) = real_of_int k * 2 powi (exponent (real m) - 52)" by blast
  from e have "(2::real) powi (exponent (real m) - 52) = 2 ^ nat (exponent (real m) - 52)"
    by (simp add: power_int_def)
  with f have "fl (real m) = real_of_int (k * 2 ^ nat (exponent (real m) - 52))" by simp
  then show ?thesis by blast
qed

section \<open>Clamping of brightness and contrast\<close>

text \<open>
  C2 (as amended). \<^const>\<open>applyBrightness\<close> returns a value in [0,255] for every input and
  every factor. \<^const>\<open>applyContrast\<close> does so for every input when the factor is at least
  0.001 away from 1, and for every factor when the input is in [0,255]; for a factor closer
  than 0.001 to 1 it returns its input unchanged.
\<close>

theorem brightness_contrast_range:
  "0 \<le> applyBrightness v br \<and> applyBrightness v br \<le> 255 \<and>
   (0.001 \<le> \<bar>ct - 1\<bar> \<longrightarrow> 0 \<le> applyContrast v ct \<and> applyContrast v ct \<le> 255) \<and>
   (0 \<le> v \<and> v \<le> 255 \<longrightarrow> 0 \<le> applyContrast v ct \<and> applyContrast v ct \<le> 255) \<and>
   (\<bar>ct - 1\<bar> < 0.001 \<longrightarrow> applyContrast v ct = v)"
  by (simp add: applyBrightness_def applyContrast_def Let_def)

theorem brightness_contrast_range_witness:
  "0 \<le> applyBrightness 300 2 \<and> applyBrightness 300 2 \<le> 255 \<and>
   0 \<le> applyContrast 300 2 \<and> applyContrast 300 2 \<le> 255 \<and>
   0 \<le> applyContrast 100 1 \<and> applyContrast 100 1 \<le> 255 \<and>
   applyContrast 100 1 = 100"
  using brightness_contrast_range [of 300 2 2] brightness_contrast_range [of 100 2 1]
  by simp

text \<open>
  C2 as stated fails: the neutral-contrast guard returns an out-of-range input as it is.
\<close>

theorem contrast_range_counterexample:
  "\<not> (0 \<le> applyContrast 300 1 \<and> applyContrast 300 1 \<le> 255)"
  by (simp add: applyContrast_def)

section \<open>The sampled grid\<close>

declare pxLoop.simps [simp del] pyLoop.simps [simp del]

text \<open>
  The steps are at least 1 when the pixel size is, and then the numbers of columns and rows
  are at most the width and the height.
\<close>

lemma aspect_bounds: "0 < CHAR_ASPECT_RATIO \<and> CHAR_ASPECT_RATIO \<le> 1"
proof -
  have "fl 0.6 \<le> fl 1" by (rule fl_mono) simp_all
  moreover have "fl 1 = 1" using fl_nat [of 1] by simp
  moreover have "0 < fl 0.6" by (rule fl_pos) simp
  ultimately show ?thesis by (simp add: CHAR_ASPECT_RATIO_def)
qed

lemma stepY_ge_1:
  assumes "1 \<le> ps"
  shows "1 \<le> fl (ps / CHAR_ASPECT_RATIO)"
proof -
  from aspect_bounds assms have "ps * CHAR_ASPECT_RATIO \<le> ps * 1"
    by (intro mult_left_mono) simp_all
  with aspect_bounds have "ps \<le> ps / CHAR_ASPECT_RATIO"
    by (simp add: pos_le_divide_eq)
  with assms have "1 \<le> ps / CHAR_ASPECT_RATIO" by simp
  then have "fl 1 \<le> fl (ps / CHAR_ASPECT_RATIO)" by (intro fl_mono) simp_all
  moreover have "fl 1 = 1" using fl_nat [of 1] by simp
  ultimately show ?thesis by simp
qed

lemma quotient_bounds:
  assumes "1 \<le> step" "n < 2 ^ 31"
  shows "0 \<le> \<lfloor>fl (real n / step)\<rfloor> \<and> \<lfloor>fl (real n / step)\<rfloor> \<le> int n"
proof -
  from assms(1) have q0: "0 \<le> real n / step" by simp
  from assms(1) have "real n / step \<le> real n / 1"
    by (intro divide_left_mono) simp_all
  then have "real n / step \<le> real n" by simp
  with q0 have "fl (real n / step) \<le> fl (real n)" by (rule fl_mono)
  moreover from assms(2) have "n < 2 ^ 53"
    by (rule less_trans) simp
  then have "fl (real n) = real n" by (rule fl_nat)
  ultimately have "fl (real n / step) \<le> real n" by simp
  then have "\<lfloor>fl (real n / step)\<rfloor> \<le> int n" by linarith
  moreover from q0 have "0 \<le> fl (real n / step)" by (rule fl_nonneg)
  then have "0 \<le> \<lfloor>fl (real n / step)\<rfloor>" by simp
  ultimately show ?thesis by simp
qed

text \<open>
  The block of a cell of the grid starts inside the frame. If the quotient \<open>n / step\<close> were
  more than \<open>2^-21\<close> below \<open>c + 1\<close>, its rounding would stay below \<open>c + 1\<close>; so the product
  \<open>c * step\<close> is below \<open>n - 1 + 2^-21\<close>, and so is its rounding.
\<close>

lemma cell_origin_in_frame:
  assumes "1 \<le> step" "n < 2 ^ 31" "int c < \<lfloor>fl (real n / step)\<rfloor>"
  shows "nat \<lfloor>fl (real c * step)\<rfloor> < n"
proof -
  from quotient_bounds [OF assms(1,2)] assms(3) have cn: "c < n" by linarith
  from assms(2) have n31: "int n < 2 ^ 31" by (metis of_nat_less_numeral_power_cancel_iff)
  from cn n31 have c31: "int c + 1 < 2 ^ 31" by linarith
  from assms(3) have m: "real c + 1 \<le> fl (real n / step)" by linarith
  have gt: "real c + 1 - 1 / 2 ^ 21 < real n / step"
  proof (rule ccontr)
    assume "\<not> ?thesis"
    then have le: "real n / step \<le> real_of_int ((int c + 1) * 2 ^ 21 - 1) / 2 ^ 21"
      by (simp add: field_simps)
    from assms(1) have q0: "0 \<le> real n / step" by simp
    have "0 < (int c + 1) * 2 ^ 21 - 1" by simp
    moreover from c31 have "(int c + 1) * 2 ^ 21 - 1 < 2 ^ 53" by simp
    ultimately have "fl (real n / step) \<le> real_of_int ((int c + 1) * 2 ^ 21 - 1) / 2 ^ 21"
      using q0 le by (intro fl_le_dyadic)
    also have "\<dots> < real c + 1" by (simp add: field_simps)
    finally show False using m by simp
  qed
  from assms(1) have sp: "0 < step" by simp
  from gt sp have "(real c + 1 - 1 / 2 ^ 21) * step < real n"
    by (simp add: pos_less_divide_eq)
  moreover have "real c * step + (1 - 1 / 2 ^ 21) \<le> (real c + 1 - 1 / 2 ^ 21) * step"
  proof -
    have "(1 - 1 / 2 ^ 21) * 1 \<le> (1 - 1 / 2 ^ 21) * step"
      using assms(1) by (intro mult_left_mono) simp_all
    then show ?thesis by (simp add: algebra_simps)
  qed
  ultimately have "real c * step < real n - 1 + 1 / 2 ^ 21" by linarith
  then have le: "real c * step \<le> real_of_int ((int n - 1) * 2 ^ 21 + 1) / 2 ^ 21"
    by (simp add: field_simps)
  from sp have p0: "0 \<le> real c * step" by simp
  from cn have "0 < (int n - 1) * 2 ^ 21 + 1" by simp
  moreover from n31 have "(int n - 1) * 2 ^ 21 + 1 < 2 ^ 53" by simp
  ultimately have "fl (real c * step) \<le> real_of_int ((int n - 1) * 2 ^ 21 + 1) / 2 ^ 21"
    using p0 le by (intro fl_le_dyadic)
  also have "\<dots> < real n" by (simp add: field_simps)
  finally have "\<lfloor>fl (real c * step)\<rfloor> < int n" by linarith
  moreover from p0 have "0 \<le> fl (real c * step)" by (rule fl_nonneg)
  then have "0 \<le> \<lfloor>fl (real c * step)\<rfloor>" by simp
  ultimately show ?thesis by linarith
qed

text \<open>
  The pixel array holds the four bytes of pixel \<open>(col, row)\<close> from index
  \<open>(row * width + col) * 4\<close> on.
\<close>

lemma length_getImageData: "length (getImageData ctx width height) = 4 * (width * height)"
  by (simp add: getImageData_def length_concat comp_def case_prod_unfold sum_list_triv)

lemma concat_map_nth:
  assumes "\<And>x. length (f x) = k" "i < length xs" "j < k"
  shows "concat (map f xs) ! (i * k + j) = f (xs ! i) ! j"
  using assms(2)
proof (induction xs arbitrary: i)
  case Nil
  then show ?case by simp
next
  case (Cons a xs)
  show ?case
  proof (cases i)
    case 0
    with assms(1,3) show ?thesis by (simp add: nth_append)
  next
    case (Suc i')
    with Cons.prems have "i' < length xs" by simp
    from Cons.IH [OF this] have "concat (map f xs) ! (i' * k + j) = f (xs ! i') ! j" .
    moreover have "i * k + j = k + (i' * k + j)" using Suc by simp
    ultimately show ?thesis
      using Suc assms(1) by (simp add: nth_append)
  qed
qed

lemma getImageData_nth:
  assumes "col < width" "row < height" "j < 4"
  shows "getImageData ctx width height ! ((row * width + col) * 4 + j) =
     (case ctx (col, row) of (pr, pg, pb, pa) \<Rightarrow> [pr, pg, pb, pa]) ! j"
proof -
  from assms(1) have "row * width + col < Suc row * width" by simp
  also from assms(2) have "Suc row * width \<le> height * width"
    by (intro mult_le_mono1) simp
  finally have i: "row * width + col < length [0..<width * height]"
    by (simp add: mult.commute)
  have len: "length (case ctx (i mod width, i div width) of (pr, pg, pb, pa) \<Rightarrow> [pr, pg, pb, pa]) = 4"
    for i by (simp add: case_prod_unfold)
  from i have nth: "[0..<width * height] ! (row * width + col) = row * width + col"
    by simp
  from assms(1) have md: "(row * width + col) mod width = col" "(row * width + col) div width = row"
    by simp_all
  show ?thesis
    unfolding getImageData_def
    by (subst concat_map_nth [where k = 4, OF len i assms(3)]) (simp only: nth md)
qed

lemma getImageData_channels:
  assumes "col < width" "row < height"
  shows "unat (getImageData ctx width height ! ((row * width + col) * 4)) = redOf (ctx (col, row))"
    and "unat (getImageData ctx width height ! ((row * width + col) * 4 + 1)) = greenOf (ctx (col, row))"
    and "unat (getImageData ctx width height ! ((row * width + col) * 4 + 2)) = blueOf (ctx (col, row))"
  using getImageData_nth [OF assms, of 0 ctx] getImageData_nth [OF assms, of 1 ctx]
    getImageData_nth [OF assms, of 2 ctx]
  by (simp_all add: redOf_def greenOf_def blueOf_def case_prod_unfold)

text \<open>
  The inner loop adds the pixels of one row of the block, from column \<open>pixelX + px\<close> to the
  end of the block or of the frame; the outer loop adds these rows.
\<close>

lemma pxLoop_sums:
  assumes "rowY < height"
  shows "pxLoop (getImageData ctx width height) width blockWidth pixelX rowY px acc =
     \<lparr>totalR = totalR acc + sum_list (map (\<lambda>col. redOf (ctx (col, rowY)))
                  [pixelX + px..<min (pixelX + blockWidth) width]),
      totalG = totalG acc + sum_list (map (\<lambda>col. greenOf (ctx (col, rowY)))
                  [pixelX + px..<min (pixelX + blockWidth) width]),
      totalB = totalB acc + sum_list (map (\<lambda>col. blueOf (ctx (col, rowY)))
                  [pixelX + px..<min (pixelX + blockWidth) width]),
      count = count acc + length [pixelX + px..<min (pixelX + blockWidth) width]\<rparr>"
proof (induction n \<equiv> "min (pixelX + blockWidth) width - (pixelX + px)" arbitrary: px acc)
  case 0
  then have stop: "\<not> (px < blockWidth \<and> pixelX + px < width)" by auto
  then have e: "[pixelX + px..<min (pixelX + blockWidth) width] = []" by auto
  have l: "pxLoop (getImageData ctx width height) width blockWidth pixelX rowY px acc = acc"
    by (subst pxLoop.simps) (simp only: stop if_False)
  show ?case unfolding l e by simp
next
  case (Suc n)
  then have run: "px < blockWidth \<and> pixelX + px < width" by auto
  then have lt: "pixelX + px < min (pixelX + blockWidth) width" by simp
  from run have c: "pixelX + px < width" by simp
  note ch = getImageData_channels [OF c assms, where ctx = ctx]
  have up: "[pixelX + px..<min (pixelX + blockWidth) width] =
      (pixelX + px) # [pixelX + (px + 1)..<min (pixelX + blockWidth) width]"
    using lt by (simp add: upt_conv_Cons)
  define acc' where "acc' =
    \<lparr>totalR = totalR acc + redOf (ctx (pixelX + px, rowY)),
     totalG = totalG acc + greenOf (ctx (pixelX + px, rowY)),
     totalB = totalB acc + blueOf (ctx (pixelX + px, rowY)),
     count = count acc + 1\<rparr>"
  have step: "pxLoop (getImageData ctx width height) width blockWidth pixelX rowY px acc =
      pxLoop (getImageData ctx width height) width blockWidth pixelX rowY (px + 1) acc'"
    by (subst pxLoop.simps) (simp only: run simp_thms if_True Let_def ch acc'_def)
  from Suc.hyps(2) have "n = min (pixelX + blockWidth) width - (pixelX + (px + 1))" by simp
  note ih = Suc.hyps(1) [OF this, of acc']
  show ?case
    unfolding step ih by (simp add: acc'_def up del: upt_Suc)
qed

lemma pyLoop_sums:
  "pyLoop (getImageData ctx width height) width height blockWidth blockHeight pixelX pixelY py acc =
     (let pts = concat (map (\<lambda>row. map (\<lambda>col. (col, row)) [pixelX..<min (pixelX + blockWidth) width])
                  [pixelY + py..<min (pixelY + blockHeight) height])
      in \<lparr>totalR = totalR acc + sum_list (map (\<lambda>p. redOf (ctx p)) pts),
          totalG = totalG acc + sum_list (map (\<lambda>p. greenOf (ctx p)) pts),
          totalB = totalB acc + sum_list (map (\<lambda>p. blueOf (ctx p)) pts),
          count = count acc + length pts\<rparr>)"
proof (induction n \<equiv> "min (pixelY + blockHeight) height - (pixelY + py)" arbitrary: py acc)
  case 0
  then have stop: "\<not> (py < blockHeight \<and> pixelY + py < height)" by auto
  then have e: "[pixelY + py..<min (pixelY + blockHeight) height] = []" by auto
  have l: "pyLoop (getImageData ctx width height) width height blockWidth blockHeight pixelX pixelY
      py acc = acc"
    by (subst pyLoop.simps) (simp only: stop if_False)
  show ?case unfolding l e by simp
next
  case (Suc n)
  then have run: "py < blockHeight \<and> pixelY + py < height" by auto
  then have lt: "pixelY + py < min (pixelY + blockHeight) height" by simp
  from run have c: "pixelY + py < height" by simp
  have up: "[pixelY + py..<min (pixelY + blockHeight) height] =
      (pixelY + py) # [pixelY + (py + 1)..<min (pixelY + blockHeight) height]"
    using lt by (simp add: upt_conv_Cons)
  have step: "pyLoop (getImageData ctx width height) width height blockWidth blockHeight pixelX
      pixelY py acc =
      pyLoop (getImageData ctx width height) width height blockWidth blockHeight pixelX pixelY
        (py + 1) (pxLoop (getImageData ctx width height) width blockWidth pixelX (pixelY + py) 0 acc)"
    by (subst pyLoop.simps) (simp only: run simp_thms if_True)
  from Suc.hyps(2) have "n = min (pixelY + blockHeight) height - (pixelY + (py + 1))" by simp
  note ih = Suc.hyps(1) [OF this]
  show ?case
    unfolding step ih pxLoop_sums [OF c]
    by (simp add: Let_def up comp_def del: upt_Suc)
qed

text \<open>
  The sums and the count of a block are those of the pixels of the cell, so the first average
  of the loop body is the average colour of the cell.
\<close>

lemma sampleBlock_sums:
  "sampleBlock (getImageData ctx width height) width height stepX stepY cx cy =
     \<lparr>totalR = sum_list (map (\<lambda>p. redOf (ctx p)) (cellPixels width height stepX stepY cx cy)),
      totalG = sum_list (map (\<lambda>p. greenOf (ctx p)) (cellPixels width height stepX stepY cx cy)),
      totalB = sum_list (map (\<lambda>p. blueOf (ctx p)) (cellPixels width height stepX stepY cx cy)),
      count = length (cellPixels width height stepX stepY cx cy)\<rparr>"
  unfolding sampleBlock_def cellPixels_def Let_def pyLoop_sums by simp

lemma cellPixels_in_frame:
  assumes "p \<in> set (cellPixels width height stepX stepY cx cy)"
  shows "fst p < width \<and> snd p < height"
  using assms by (auto simp: cellPixels_def Let_def)

lemma cellPixels_nonempty:
  assumes "1 \<le> stepX" "1 \<le> stepY"
    and "nat \<lfloor>fl (real cx * stepX)\<rfloor> < width" "nat \<lfloor>fl (real cy * stepY)\<rfloor> < height"
  shows "cellPixels width height stepX stepY cx cy \<noteq> []"
proof -
  define left where "left = nat \<lfloor>fl (real cx * stepX)\<rfloor>"
  define top where "top = nat \<lfloor>fl (real cy * stepY)\<rfloor>"
  define blockWidth where "blockWidth = nat \<lceil>stepX\<rceil>"
  define blockHeight where "blockHeight = nat \<lceil>stepY\<rceil>"
  from assms(1) have "1 \<le> blockWidth" unfolding blockWidth_def by linarith
  with assms(3) have "left < min (left + blockWidth) width" by (simp add: left_def)
  then have cols: "[left..<min (left + blockWidth) width] =
      left # [Suc left..<min (left + blockWidth) width]"
    by (rule upt_conv_Cons)
  from assms(2) have "1 \<le> blockHeight" unfolding blockHeight_def by linarith
  with assms(4) have "top < min (top + blockHeight) height" by (simp add: top_def)
  then have rows: "[top..<min (top + blockHeight) height] =
      top # [Suc top..<min (top + blockHeight) height]"
    by (rule upt_conv_Cons)
  have "cellPixels width height stepX stepY cx cy =
      concat (map (\<lambda>py. map (\<lambda>px. (px, py)) [left..<min (left + blockWidth) width])
        [top..<min (top + blockHeight) height])"
    by (simp add: cellPixels_def Let_def left_def top_def blockWidth_def blockHeight_def)
  also have "\<dots> \<noteq> []"
    by (subst rows, subst cols) simp
  finally show ?thesis .
qed

lemma sampleCell_cell:
  assumes "cellPixels width height stepX stepY cx cy \<noteq> []"
  shows "sampleCell settings (getImageData ctx width height) width height stepX stepY cx cy =
     (let avg = averageColor ctx (cellPixels width height stepX stepY cx cy);
          blended = applyBlendMode (r avg) (g avg) (b avg) (blendMode settings);
          gray = glyphIntensity settings blended
      in Some \<lparr>char = getCharacterForBrightness gray (characterSet settings) (invert settings),
               color = (case colorMode settings of
                          Monochrome \<Rightarrow> monochromeColor settings
                        | Gradient \<Rightarrow> interpolateGradient (gradientColors settings) (fl (gray / 255))
                        | Custom \<Rightarrow> monochromeColor settings
                        | Original \<Rightarrow> roundedHex blended),
               cellX = nat \<lfloor>fl (real cx * stepX)\<rfloor>, cellY = nat \<lfloor>fl (real cy * stepY)\<rfloor>\<rparr>)"
  using assms
  by (cases "colorMode settings")
    (simp_all add: sampleCell_def sampleBlock_sums Let_def averageColor_def glyphIntensity_def
      roundedHex_def)

lemma map_filter_all_Some:
  assumes "\<And>x. x \<in> set xs \<Longrightarrow> f x \<noteq> None"
  shows "List.map_filter f xs = map (\<lambda>x. the (f x)) xs"
  using assms
proof (induction xs)
  case Nil
  show ?case by (simp add: List.map_filter_simps)
next
  case (Cons a xs)
  from Cons.prems [of a] obtain v where v: "f a = Some v" by auto
  from Cons.IH Cons.prems have "List.map_filter f xs = map (\<lambda>x. the (f x)) xs" by simp
  with v show ?case by (simp add: List.map_filter_simps)
qed

text \<open>
  For a frame of at least one pixel each way, narrower and lower than \<open>2^31\<close>, and a pixel
  size of at least 1, every cell of the grid has a pixel, and the sampler returns the grid of
  all cells.
\<close>

lemma grid_cell_nonempty:
  assumes "width < 2 ^ 31" "height < 2 ^ 31" "1 \<le> pixelSize settings"
    and "int cy < \<lfloor>fl (real height / fl (pixelSize settings / CHAR_ASPECT_RATIO))\<rfloor>"
    and "int cx < \<lfloor>fl (real width / pixelSize settings)\<rfloor>"
  shows "nat \<lfloor>fl (real cx * pixelSize settings)\<rfloor> < width"
    and "nat \<lfloor>fl (real cy * fl (pixelSize settings / CHAR_ASPECT_RATIO))\<rfloor> < height"
    and "cellPixels width height (pixelSize settings) (fl (pixelSize settings / CHAR_ASPECT_RATIO))
           cx cy \<noteq> []"
proof -
  note sy = stepY_ge_1 [OF assms(3)]
  show x: "nat \<lfloor>fl (real cx * pixelSize settings)\<rfloor> < width"
    using assms(3,1,5) by (rule cell_origin_in_frame)
  show y: "nat \<lfloor>fl (real cy * fl (pixelSize settings / CHAR_ASPECT_RATIO))\<rfloor> < height"
    using sy assms(2,4) by (rule cell_origin_in_frame)
  show "cellPixels width height (pixelSize settings) (fl (pixelSize settings / CHAR_ASPECT_RATIO))
           cx cy \<noteq> []"
    using assms(3) sy x y by (rule cellPixels_nonempty)
qed

lemma convert_grid:
  assumes "1 \<le> width" "width < 2 ^ 31" "1 \<le> height" "height < 2 ^ 31" "1 \<le> pixelSize settings"
  shows "convertFrameToASCII ctx width height settings =
    Inr (map (\<lambda>cy. map (\<lambda>cx. the (sampleCell settings (getImageData ctx width height) width height
                                    (pixelSize settings)
                                    (fl (pixelSize settings / CHAR_ASPECT_RATIO)) cx cy))
                       [0..<nat \<lfloor>fl (real width / pixelSize settings)\<rfloor>])
           [0..<nat \<lfloor>fl (real height / fl (pixelSize settings / CHAR_ASPECT_RATIO))\<rfloor>])"
proof -
  let ?stepY = "fl (pixelSize settings / CHAR_ASPECT_RATIO)"
  let ?cols = "\<lfloor>fl (real width / pixelSize settings)\<rfloor>"
  let ?rows = "\<lfloor>fl (real height / ?stepY)\<rfloor>"
  let ?cell = "sampleCell settings (getImageData ctx width height) width height
      (pixelSize settings) ?stepY"
  note sy = stepY_ge_1 [OF assms(5)]
  have p: "(2::int) ^ 31 < 2 ^ 32" by simp
  from assms(2) have "int width < 2 ^ 31" by (metis of_nat_less_numeral_power_cancel_iff)
  with quotient_bounds [OF assms(5,2)] p have cols: "?cols < 2 ^ 32" by linarith
  from assms(4) have "int height < 2 ^ 31" by (metis of_nat_less_numeral_power_cancel_iff)
  with quotient_bounds [OF sy assms(4)] p have rows: "?rows < 2 ^ 32" by linarith
  have row: "List.map_filter (\<lambda>cx. ?cell cx cy) [0..<nat ?cols] =
      map (\<lambda>cx. the (?cell cx cy)) [0..<nat ?cols]" if "cy < nat ?rows" for cy
  proof (rule map_filter_all_Some)
    fix cx
    assume "cx \<in> set [0..<nat ?cols]"
    then have "int cx < ?cols" by simp
    moreover from that have "int cy < ?rows" by simp
    ultimately have "cellPixels width height (pixelSize settings) ?stepY cx cy \<noteq> []"
      using assms(2,4,5) by (intro grid_cell_nonempty(3))
    then show "?cell cx cy \<noteq> None"
      by (simp add: sampleCell_cell Let_def)
  qed
  have "map (\<lambda>cy. List.map_filter (\<lambda>cx. ?cell cx cy) [0..<nat ?cols]) [0..<nat ?rows] =
        map (\<lambda>cy. map (\<lambda>cx. the (?cell cx cy)) [0..<nat ?cols]) [0..<nat ?rows]"
    by (rule map_cong [OF refl]) (simp add: row)
  moreover from assms(5) have "pixelSize settings \<noteq> 0" by simp
  ultimately show ?thesis
    using assms(1-4) cols rows by (simp add: convertFrameToASCII_def Let_def)
qed

lemma grid_rows_cols:
  assumes "1 \<le> width" "width < 2 ^ 31" "1 \<le> height" "height < 2 ^ 31" "1 \<le> pixelSize settings"
  shows "\<exists>grid. convertFrameToASCII ctx width height settings = Inr grid \<and>
     length grid = nat \<lfloor>fl (real height / fl (pixelSize settings / CHAR_ASPECT_RATIO))\<rfloor> \<and>
     (\<forall>row \<in> set grid. length row = nat \<lfloor>fl (real width / pixelSize settings)\<rfloor>)"
  unfolding convert_grid [OF assms] by auto

lemma convert_refuses:
  assumes "2 ^ 31 \<le> width \<or> 2 ^ 31 \<le> height"
  shows "convertFrameToASCII ctx width height settings = Inl TypeError"
  using assms by (simp add: convertFrameToASCII_def)


text \<open>The doubles of the examples.\<close>

lemma aspect_value: "CHAR_ASPECT_RATIO = 5404319552844595 / 2 ^ 53"
  by code_simp


lemma rows_16_at_8: "\<lfloor>fl (16 / fl (8 / CHAR_ASPECT_RATIO))\<rfloor> = 1"
  by code_simp

lemma rows_4_at_2: "\<lfloor>fl (4 / fl (2 / CHAR_ASPECT_RATIO))\<rfloor> = 1"
  by code_simp

lemma fl_small: "fl 1 = 1" "fl 2 = 2" "fl 5 = 5" "fl 28 = 28" "fl 100 = 100"
  using fl_nat [of 1] fl_nat [of 2] fl_nat [of 5] fl_nat [of 28] fl_nat [of 100] by simp_all




text \<open>
  C10. For a frame of width and height at least 1 and a pixel size of at least 1: whenever the
  sampler returns a grid, the block of every cell position of the grid starts inside the
  frame, the cell has at least one pixel, all of its pixels lie in the frame and the loops
  count exactly them, so no cell is skipped; the grid has \<open>rows\<close> rows and every row has
  \<open>cols\<close> cells. The sampler returns a grid for every such frame that
  \<^verbatim>\<open>getImageData\<close> accepts, one narrower and lower than \<open>2^31\<close>.
\<close>

theorem every_cell_samples_a_pixel:
  assumes "1 \<le> width" "1 \<le> height" "1 \<le> pixelSize settings"
  shows "let pixels = getImageData ctx width height;
             stepX = pixelSize settings;
             stepY = fl (pixelSize settings / CHAR_ASPECT_RATIO);
             cols = nat \<lfloor>fl (real width / stepX)\<rfloor>;
             rows = nat \<lfloor>fl (real height / stepY)\<rfloor>
         in (\<forall>grid. convertFrameToASCII ctx width height settings = Inr grid \<longrightarrow>
               (\<forall>cy < rows. \<forall>cx < cols.
                  nat \<lfloor>fl (real cx * stepX)\<rfloor> < width \<and> nat \<lfloor>fl (real cy * stepY)\<rfloor> < height \<and>
                  cellPixels width height stepX stepY cx cy \<noteq> [] \<and>
                  (\<forall>p \<in> set (cellPixels width height stepX stepY cx cy).
                     fst p < width \<and> snd p < height) \<and>
                  count (sampleBlock pixels width height stepX stepY cx cy) =
                    length (cellPixels width height stepX stepY cx cy) \<and>
                  1 \<le> count (sampleBlock pixels width height stepX stepY cx cy) \<and>
                  sampleCell settings pixels width height stepX stepY cx cy \<noteq> None) \<and>
               length grid = rows \<and> (\<forall>row \<in> set grid. length row = cols)) \<and>
            ((\<exists>grid. convertFrameToASCII ctx width height settings = Inr grid) \<longleftrightarrow>
               width < 2 ^ 31 \<and> height < 2 ^ 31)"
proof -
  let ?stepY = "fl (pixelSize settings / CHAR_ASPECT_RATIO)"
  let ?pts = "cellPixels width height (pixelSize settings) ?stepY"
  let ?rows = "nat \<lfloor>fl (real height / ?stepY)\<rfloor>"
  let ?cols = "nat \<lfloor>fl (real width / pixelSize settings)\<rfloor>"
  have returns: "(\<exists>grid. convertFrameToASCII ctx width height settings = Inr grid) \<longleftrightarrow>
      width < 2 ^ 31 \<and> height < 2 ^ 31"
  proof (cases "width < 2 ^ 31 \<and> height < 2 ^ 31")
    case True
    then show ?thesis
      using grid_rows_cols [OF assms(1) _ assms(2) _ assms(3), of ctx] by blast
  next
    case False
    then have "2 ^ 31 \<le> width \<or> 2 ^ 31 \<le> height" by auto
    from convert_refuses [OF this] False show ?thesis by simp
  qed
  have inside: "(\<forall>cy < ?rows. \<forall>cx < ?cols.
        nat \<lfloor>fl (real cx * pixelSize settings)\<rfloor> < width \<and>
        nat \<lfloor>fl (real cy * ?stepY)\<rfloor> < height \<and>
        ?pts cx cy \<noteq> [] \<and>
        (\<forall>p \<in> set (?pts cx cy). fst p < width \<and> snd p < height) \<and>
        count (sampleBlock (getImageData ctx width height) width height (pixelSize settings)
               ?stepY cx cy) = length (?pts cx cy) \<and>
        1 \<le> count (sampleBlock (getImageData ctx width height) width height (pixelSize settings)
               ?stepY cx cy) \<and>
        sampleCell settings (getImageData ctx width height) width height (pixelSize settings)
               ?stepY cx cy \<noteq> None) \<and>
      length grid = ?rows \<and> (\<forall>row \<in> set grid. length row = ?cols)"
    if g: "convertFrameToASCII ctx width height settings = Inr grid" for grid
  proof -
    from g returns have w: "width < 2 ^ 31" and h: "height < 2 ^ 31" by blast+
    have cell: "nat \<lfloor>fl (real cx * pixelSize settings)\<rfloor> < width \<and>
        nat \<lfloor>fl (real cy * ?stepY)\<rfloor> < height \<and>
        ?pts cx cy \<noteq> [] \<and>
        (\<forall>p \<in> set (?pts cx cy). fst p < width \<and> snd p < height) \<and>
        count (sampleBlock (getImageData ctx width height) width height (pixelSize settings)
               ?stepY cx cy) = length (?pts cx cy) \<and>
        1 \<le> count (sampleBlock (getImageData ctx width height) width height (pixelSize settings)
               ?stepY cx cy) \<and>
        sampleCell settings (getImageData ctx width height) width height (pixelSize settings)
               ?stepY cx cy \<noteq> None"
      if "cy < ?rows" and "cx < ?cols" for cx cy
    proof -
      from that have cy: "int cy < \<lfloor>fl (real height / ?stepY)\<rfloor>"
        and cx: "int cx < \<lfloor>fl (real width / pixelSize settings)\<rfloor>" by simp_all
      note o = grid_cell_nonempty [OF w h assms(3) cy cx]
      from o(3) have "1 \<le> length (?pts cx cy)"
        by (cases "?pts cx cy") simp_all
      moreover have "sampleCell settings (getImageData ctx width height) width height
          (pixelSize settings) ?stepY cx cy \<noteq> None"
        using o(3) by (simp add: sampleCell_cell Let_def)
      ultimately show ?thesis
        using o cellPixels_in_frame by (simp add: sampleBlock_sums)
    qed
    from grid_rows_cols [OF assms(1) w assms(2) h assms(3), of ctx] g
    have "length grid = ?rows \<and> (\<forall>row \<in> set grid. length row = ?cols)" by simp
    with cell show ?thesis by blast
  qed
  show ?thesis
    unfolding Let_def using inside returns by blast
qed

theorem every_cell_samples_a_pixel_witness:
  "cellPixels 16 16 8 (fl (8 / CHAR_ASPECT_RATIO)) 1 0 \<noteq> [] \<and>
   1 \<le> count (sampleBlock (getImageData (uniformCanvas 0) 16 16) 16 16 8
          (fl (8 / CHAR_ASPECT_RATIO)) 1 0) \<and>
   sampleCell DEFAULT_SETTINGS (getImageData (uniformCanvas 0) 16 16) 16 16 8
     (fl (8 / CHAR_ASPECT_RATIO)) 1 0 \<noteq> None \<and>
   (\<exists>grid. convertFrameToASCII (uniformCanvas 0) 16 16 DEFAULT_SETTINGS = Inr grid \<and>
      length grid = 1 \<and> (\<forall>row \<in> set grid. length row = 2))"
proof -
  have ps: "pixelSize DEFAULT_SETTINGS = 8" by (simp add: DEFAULT_SETTINGS_def)
  have h: "(1::nat) \<le> 16" "1 \<le> pixelSize DEFAULT_SETTINGS"
    by (simp_all add: ps)
  have rows: "nat \<lfloor>fl (real 16 / fl (pixelSize DEFAULT_SETTINGS / CHAR_ASPECT_RATIO))\<rfloor> = 1"
    using rows_16_at_8 by (simp add: ps)
  have cols: "nat \<lfloor>fl (real 16 / pixelSize DEFAULT_SETTINGS)\<rfloor> = 2"
    by (simp add: ps fl_small)
  note t = every_cell_samples_a_pixel [OF h(1,1,2), of "uniformCanvas 0", unfolded Let_def rows cols]
  from t [THEN conjunct2] obtain grid where
    g: "convertFrameToASCII (uniformCanvas 0) 16 16 DEFAULT_SETTINGS = Inr grid"
    by auto
  from t [THEN conjunct1, rule_format, OF g]
  have c: "\<forall>cy < 1. \<forall>cx < 2.
      nat \<lfloor>fl (real cx * pixelSize DEFAULT_SETTINGS)\<rfloor> < 16 \<and>
      nat \<lfloor>fl (real cy * fl (pixelSize DEFAULT_SETTINGS / CHAR_ASPECT_RATIO))\<rfloor> < 16 \<and>
      cellPixels 16 16 (pixelSize DEFAULT_SETTINGS)
        (fl (pixelSize DEFAULT_SETTINGS / CHAR_ASPECT_RATIO)) cx cy \<noteq> [] \<and>
      (\<forall>p \<in> set (cellPixels 16 16 (pixelSize DEFAULT_SETTINGS)
          (fl (pixelSize DEFAULT_SETTINGS / CHAR_ASPECT_RATIO)) cx cy). fst p < 16 \<and> snd p < 16) \<and>
      count (sampleBlock (getImageData (uniformCanvas 0) 16 16) 16 16 (pixelSize DEFAULT_SETTINGS)
        (fl (pixelSize DEFAULT_SETTINGS / CHAR_ASPECT_RATIO)) cx cy) =
        length (cellPixels 16 16 (pixelSize DEFAULT_SETTINGS)
          (fl (pixelSize DEFAULT_SETTINGS / CHAR_ASPECT_RATIO)) cx cy) \<and>
      1 \<le> count (sampleBlock (getImageData (uniformCanvas 0) 16 16) 16 16
        (pixelSize DEFAULT_SETTINGS) (fl (pixelSize DEFAULT_SETTINGS / CHAR_ASPECT_RATIO)) cx cy) \<and>
      sampleCell DEFAULT_SETTINGS (getImageData (uniformCanvas 0) 16 16) 16 16
        (pixelSize DEFAULT_SETTINGS) (fl (pixelSize DEFAULT_SETTINGS / CHAR_ASPECT_RATIO)) cx cy
        \<noteq> None"
    and l: "length grid = 1" "\<forall>row \<in> set grid. length row = 2"
    by blast+
  from c [rule_format, of 0 1] g l show ?thesis
    unfolding ps by auto
qed

lemma applyBlendMode_Normal:
  "applyBlendMode (r c) (g c) (b c) Normal = (c :: real rgb)"
  by (simp add: applyBlendMode_def blendChannel_def)

text \<open>
  The example of a blend mode that is not \<open>normal\<close>: a frame 2 wide and 4 high of the
  colour (100, 100, 100), which is one cell at pixel size 2, sampled with blend mode
  \<open>difference\<close>.
\<close>

lemma example_cellPixels:
  "cellPixels 2 4 2 (fl (2 / CHAR_ASPECT_RATIO)) 0 0 =
     [(0, 0), (1, 0), (0, 1), (1, 1), (0, 2), (1, 2), (0, 3), (1, 3)]"
  by code_simp

lemma example_average:
  "averageColor (uniformCanvas 100) (cellPixels 2 4 2 (fl (2 / CHAR_ASPECT_RATIO)) 0 0) =
     \<lparr>r = 100, g = 100, b = 100\<rparr>"
  unfolding example_cellPixels
  by (simp add: averageColor_def uniformCanvas_def redOf_def greenOf_def blueOf_def fl_small)

lemma example_blend: "applyBlendMode 100 100 100 Difference = \<lparr>r = 28, g = 28, b = 28\<rparr>"
proof -
  have "blendChannel Difference 100 = 28" by code_simp
  then show ?thesis by (simp add: applyBlendMode_def)
qed

lemma example_intensity: "glyphIntensity differenceSettings \<lparr>r = 28, g = 28, b = 28\<rparr> = 28"
proof -
  have "rgbToGrayscale 28 28 28 = 28" by code_simp
  then show ?thesis
    by (simp add: glyphIntensity_def applyBrightness_def applyContrast_def differenceSettings_def
        DEFAULT_SETTINGS_def fl_small)
qed

lemma example_glyphs:
  "getCharacterForBrightness 28 ''.:-=+*#%@'' False = '':''"
  "getCharacterForBrightness 100 ''.:-=+*#%@'' False = ''=''"
  by code_simp+

lemma example_hex:
  "roundedHex \<lparr>r = 28, g = 28, b = 28\<rparr> = ''#1c1c1c''"
  "roundedHex \<lparr>r = 100, g = 100, b = 100\<rparr> = ''#646464''"
proof -
  have "rgbToHex 28 28 28 = ''#1c1c1c''" "rgbToHex 100 100 100 = ''#646464''"
    by code_simp+
  then show "roundedHex \<lparr>r = 28, g = 28, b = 28\<rparr> = ''#1c1c1c''"
    "roundedHex \<lparr>r = 100, g = 100, b = 100\<rparr> = ''#646464''"
    by (simp_all add: roundedHex_def Math_round_def)
qed

lemma example_settings:
  "pixelSize differenceSettings = 2" "colorMode differenceSettings = Original"
  "blendMode differenceSettings = Difference" "characterSet differenceSettings = ''.:-=+*#%@''"
  "invert differenceSettings = False"
  by (simp_all add: differenceSettings_def DEFAULT_SETTINGS_def)

text \<open>
  C1 (as amended). In colour mode \<open>original\<close>, every cell of the sampled grid has the colour
  of the blended average: the average colour of the cell's pixels, transformed by the blend
  mode and then rounded to hex. The same blended average, through grayscale, brightness and
  contrast, selects the glyph of the cell. With blend mode \<open>normal\<close> the colour is the rounded
  average itself.
\<close>

theorem original_cell_uses_blended_average:
  assumes "1 \<le> width" "width < 2 ^ 31" "1 \<le> height" "height < 2 ^ 31" "1 \<le> pixelSize settings"
    and "colorMode settings = Original"
    and "cy < nat \<lfloor>fl (real height / fl (pixelSize settings / CHAR_ASPECT_RATIO))\<rfloor>"
    and "cx < nat \<lfloor>fl (real width / pixelSize settings)\<rfloor>"
  shows "let stepX = pixelSize settings;
             stepY = fl (pixelSize settings / CHAR_ASPECT_RATIO);
             avg = averageColor ctx (cellPixels width height stepX stepY cx cy);
             blended = applyBlendMode (r avg) (g avg) (b avg) (blendMode settings);
             grid = sampledGrid ctx width height settings;
             cell = grid ! cy ! cx
         in convertFrameToASCII ctx width height settings = Inr grid \<and>
            cy < length grid \<and> cx < length (grid ! cy) \<and>
            color cell = roundedHex blended \<and>
            char cell = getCharacterForBrightness (glyphIntensity settings blended)
                          (characterSet settings) (invert settings) \<and>
            cellX cell = nat \<lfloor>fl (real cx * stepX)\<rfloor> \<and>
            cellY cell = nat \<lfloor>fl (real cy * stepY)\<rfloor> \<and>
            (blendMode settings = Normal \<longrightarrow> color cell = roundedHex avg)"
proof -
  let ?stepY = "fl (pixelSize settings / CHAR_ASPECT_RATIO)"
  note grid = convert_grid [OF assms(1-5), of ctx]
  have conv: "convertFrameToASCII ctx width height settings =
      Inr (sampledGrid ctx width height settings)"
    by (simp add: sampledGrid_def grid)
  have len: "cy < length (sampledGrid ctx width height settings)"
    "cx < length (sampledGrid ctx width height settings ! cy)"
    using assms(7,8) by (simp_all add: sampledGrid_def grid)
  have nth: "sampledGrid ctx width height settings ! cy ! cx =
      the (sampleCell settings (getImageData ctx width height) width height (pixelSize settings)
        ?stepY cx cy)"
    using assms(7,8) by (simp add: sampledGrid_def grid)
  from assms(7,8) have "int cy < \<lfloor>fl (real height / ?stepY)\<rfloor>"
    "int cx < \<lfloor>fl (real width / pixelSize settings)\<rfloor>" by simp_all
  from grid_cell_nonempty(3) [OF assms(2,4,5) this]
  have ne: "cellPixels width height (pixelSize settings) ?stepY cx cy \<noteq> []" .
  show ?thesis
    unfolding Let_def nth sampleCell_cell [OF ne]
    using conv len assms(6) by (simp add: Let_def applyBlendMode_Normal)
qed

theorem original_cell_uses_blended_average_witness:
  "color (sampledGrid (uniformCanvas 100) 2 4 differenceSettings ! 0 ! 0) = ''#1c1c1c'' \<and>
   char (sampledGrid (uniformCanvas 100) 2 4 differenceSettings ! 0 ! 0) = '':''"
proof -
  have h: "(1::nat) \<le> 2" "(2::nat) < 2 ^ 31" "(1::nat) \<le> 4" "(4::nat) < 2 ^ 31"
    "1 \<le> pixelSize differenceSettings"
    by (simp_all add: example_settings)
  have cy: "0 < nat \<lfloor>fl (real 4 / fl (pixelSize differenceSettings / CHAR_ASPECT_RATIO))\<rfloor>"
    using rows_4_at_2 by (simp add: example_settings)
  have cx: "0 < nat \<lfloor>fl (real 2 / pixelSize differenceSettings)\<rfloor>"
    by (simp add: example_settings fl_small)
  from original_cell_uses_blended_average [OF h example_settings(2) cy cx, of "uniformCanvas 100"]
  show ?thesis
    unfolding Let_def example_settings example_average
    by (simp add: example_blend example_intensity example_glyphs example_hex)
qed

text \<open>
  C1 as stated fails: on this frame, in colour mode \<open>original\<close>, the cell has the colour of
  the blended average, \<open>#1c1c1c\<close>, and not the rounded average \<open>#646464\<close> of its pixels.
\<close>

theorem original_color_counterexample:
  "colorMode differenceSettings = Original \<and>
   convertFrameToASCII (uniformCanvas 100) 2 4 differenceSettings =
     Inr [[\<lparr>char = '':'', color = ''#1c1c1c'', cellX = 0, cellY = 0\<rparr>]] \<and>
   roundedHex (averageColor (uniformCanvas 100)
      (cellPixels 2 4 (pixelSize differenceSettings)
         (fl (pixelSize differenceSettings / CHAR_ASPECT_RATIO)) 0 0)) = ''#646464''"
proof -
  have h: "(1::nat) \<le> 2" "(2::nat) < 2 ^ 31" "(1::nat) \<le> 4" "(4::nat) < 2 ^ 31"
    "1 \<le> pixelSize differenceSettings"
    by (simp_all add: example_settings)
  have ne: "cellPixels 2 4 2 (fl (2 / CHAR_ASPECT_RATIO)) 0 0 \<noteq> []"
    unfolding example_cellPixels by simp
  have cell: "sampleCell differenceSettings (getImageData (uniformCanvas 100) 2 4) 2 4 2
      (fl (2 / CHAR_ASPECT_RATIO)) 0 0 =
      Some \<lparr>char = '':'', color = ''#1c1c1c'', cellX = 0, cellY = 0\<rparr>"
    unfolding sampleCell_cell [OF ne] Let_def example_average
    by (simp add: example_settings example_blend example_intensity example_glyphs example_hex)
  have rows: "nat \<lfloor>fl (real 4 / fl (pixelSize differenceSettings / CHAR_ASPECT_RATIO))\<rfloor> = 1"
    using rows_4_at_2 by (simp add: example_settings)
  have cols: "nat \<lfloor>fl (real 2 / pixelSize differenceSettings)\<rfloor> = 1"
    by (simp add: example_settings fl_small)
  have grid: "convertFrameToASCII (uniformCanvas 100) 2 4 differenceSettings =
      Inr [[\<lparr>char = '':'', color = ''#1c1c1c'', cellX = 0, cellY = 0\<rparr>]]"
    unfolding convert_grid [OF h] rows cols
    by (simp add: example_settings cell)
  show ?thesis
    using grid by (simp add: example_settings example_average example_hex)
qed

section \<open>Hex strings\<close>

declare hexDigits.simps [simp del]

lemma hex_digit:
  "isHexDigit c \<Longrightarrow> hexDigitValue c < 16 \<and> hexChar (hexDigitValue c) = toLowerCase c"
  by (simp add: isHexDigit_def, elim disjE;
      simp add: hexDigitValue_def hexChar_def toLowerCase_def)

lemma lower_hex_digit:
  "isHexDigit c \<Longrightarrow> (toLowerCase c = c) = isLowerHexDigit c"
  by (simp add: isHexDigit_def, elim disjE;
      simp add: isLowerHexDigit_def toLowerCase_def)

lemma lower_is_hex: "isLowerHexDigit c \<Longrightarrow> isHexDigit c"
  unfolding isHexDigit_def isLowerHexDigit_def by auto

lemma hexChar_0: "hexChar 0 = CHR ''0''"
  by (simp add: hexChar_def)

lemma hexDigits_two:
  assumes "u < 16" "v < 16"
  shows "padStart 2 CHR ''0'' (hexDigits (16 * u + v)) = [hexChar u, hexChar v]"
proof (cases "u = 0")
  case True
  with assms show ?thesis
    by (simp add: hexDigits.simps [of v] padStart_def hexChar_0)
next
  case False
  with assms have "hexDigits (16 * u + v) = hexDigits u @ [hexChar v]"
    by (subst hexDigits.simps) simp
  with assms show ?thesis
    by (simp add: hexDigits.simps [of u] padStart_def)
qed

lemma toString16_nat: "toString16 (int n) = hexDigits n"
  by (simp add: toString16_def)

lemma byte_roundtrip:
  assumes "isHexDigit x" "isHexDigit y"
  shows "padStart 2 CHR ''0'' (toString16 (int (parseInt16 [x, y]))) = [toLowerCase x, toLowerCase y]"
proof -
  have "parseInt16 [x, y] = 16 * hexDigitValue x + hexDigitValue y"
    by (simp add: parseInt16_def)
  then show ?thesis
    using assms hexDigits_two [of "hexDigitValue x" "hexDigitValue y"]
    by (simp only: toString16_nat hex_digit)
qed

lemma matched_roundtrip:
  assumes "matchesHex h = Some body"
  shows "rgbToHex (r (hexToRgb h)) (g (hexToRgb h)) (b (hexToRgb h)) =
     CHR ''#'' # map toLowerCase body"
proof -
  from assms have len: "length body = 6" and hex: "list_all isHexDigit body"
    by (auto simp: matchesHex_def Let_def split: if_splits)
  from len obtain d1 d2 d3 d4 d5 d6 where ds: "body = [d1, d2, d3, d4, d5, d6]"
    by (auto simp: length_Suc_conv eval_nat_numeral)
  from hex ds have l: "isHexDigit d1" "isHexDigit d2" "isHexDigit d3"
    "isHexDigit d4" "isHexDigit d5" "isHexDigit d6"
    by simp_all
  show ?thesis
    using byte_roundtrip [OF l(1) l(2)] byte_roundtrip [OF l(3) l(4)]
      byte_roundtrip [OF l(5) l(6)]
    by (simp add: hexToRgb_def assms rgbToHex_def ds)
qed

lemma map_fixed: "(map f xs = xs) = list_all (\<lambda>x. f x = x) xs"
  by (induction xs) auto

lemma matched_canonical:
  assumes "matchesHex h = Some body"
  shows "(CHR ''#'' # map toLowerCase body = h) = isCanonicalHex h"
proof
  assume eq: "CHR ''#'' # map toLowerCase body = h"
  then obtain rest where h: "h = CHR ''#'' # rest" by auto
  with assms have body: "body = rest" and len: "length rest = 6"
    and hex: "list_all isHexDigit rest"
    by (auto simp: matchesHex_def Let_def split: if_splits)
  from eq h body have "map toLowerCase rest = rest" by simp
  then have "list_all (\<lambda>c. toLowerCase c = c) rest" by (simp add: map_fixed)
  with hex have "list_all isLowerHexDigit rest"
    by (induction rest) (auto simp: lower_hex_digit)
  with h len show "isCanonicalHex h" by (simp add: isCanonicalHex_def)
next
  assume "isCanonicalHex h"
  then obtain ds where h: "h = CHR ''#'' # ds" and len: "length ds = 6"
    and low: "list_all isLowerHexDigit ds"
    by (auto simp: isCanonicalHex_def split: list.splits)
  from low have hex: "list_all isHexDigit ds"
    by (induction ds) (simp_all add: lower_is_hex)
  with h len assms have body: "body = ds" by (simp add: matchesHex_def)
  from low have "list_all (\<lambda>c. toLowerCase c = c) ds"
    by (induction ds) (auto simp: lower_hex_digit lower_is_hex)
  then have "map toLowerCase ds = ds" by (simp add: map_fixed)
  with h body show "CHR ''#'' # map toLowerCase body = h" by simp
qed

lemma canonical_matches:
  assumes "isCanonicalHex h"
  shows "matchesHex h = Some (tl h)"
proof -
  from assms obtain ds where h: "h = CHR ''#'' # ds" and len: "length ds = 6"
    and low: "list_all isLowerHexDigit ds"
    by (auto simp: isCanonicalHex_def split: list.splits)
  from low have "list_all isHexDigit ds"
    by (induction ds) (simp_all add: lower_is_hex)
  with h len show ?thesis
    by (simp add: matchesHex_def)
qed

lemma canonical_roundtrip:
  assumes "isCanonicalHex h"
  shows "rgbToHex (r (hexToRgb h)) (g (hexToRgb h)) (b (hexToRgb h)) = h"
  using matched_roundtrip [OF canonical_matches [OF assms]]
    matched_canonical [OF canonical_matches [OF assms]] assms
  by simp

text \<open>
  C5 (as amended). For every string \<open>h\<close> that \<^const>\<open>hexToRgb\<close> accepts (six hexadecimal
  digits of either case, with or without a leading \<^verbatim>\<open>#\<close>), \<open>rgbToHex (hexToRgb h)\<close> is
  \<^verbatim>\<open>#\<close> followed by the six digits of \<open>h\<close> in lower case; it is \<open>h\<close> itself exactly
  when \<open>h\<close> is \<^verbatim>\<open>#\<close> followed by six digits with no upper-case letter.
\<close>

theorem hex_roundtrip:
  assumes "matchesHex h = Some body"
  shows "rgbToHex (r (hexToRgb h)) (g (hexToRgb h)) (b (hexToRgb h)) =
           CHR ''#'' # map toLowerCase body \<and>
         ((rgbToHex (r (hexToRgb h)) (g (hexToRgb h)) (b (hexToRgb h)) = h) = isCanonicalHex h)"
  using matched_roundtrip [OF assms] matched_canonical [OF assms] by simp

theorem hex_roundtrip_witness:
  "rgbToHex (r (hexToRgb ''#00ff88'')) (g (hexToRgb ''#00ff88'')) (b (hexToRgb ''#00ff88'')) =
     ''#00ff88'' \<and> isCanonicalHex ''#00ff88''"
proof -
  have m: "matchesHex ''#00ff88'' = Some ''00ff88''"
    by (simp add: matchesHex_def isHexDigit_def)
  have c: "isCanonicalHex ''#00ff88''"
    by (simp add: isCanonicalHex_def isLowerHexDigit_def)
  from hex_roundtrip [OF m, THEN conjunct2] c show ?thesis by simp
qed

text \<open>
  C5 as stated fails on a well-formed hex string with upper-case digits, and on one without
  the leading \<^verbatim>\<open>#\<close>.
\<close>

theorem hex_roundtrip_counterexample:
  "matchesHex ''#FF0000'' = Some ''FF0000'' \<and>
   rgbToHex (r (hexToRgb ''#FF0000'')) (g (hexToRgb ''#FF0000'')) (b (hexToRgb ''#FF0000'')) =
     ''#ff0000'' \<and>
   rgbToHex (r (hexToRgb ''#FF0000'')) (g (hexToRgb ''#FF0000'')) (b (hexToRgb ''#FF0000'')) \<noteq>
     ''#FF0000''"
proof -
  have m: "matchesHex ''#FF0000'' = Some ''FF0000''"
    by (simp add: matchesHex_def isHexDigit_def)
  have c: "hexToRgb ''#FF0000'' = \<lparr>r = 255, g = 0, b = 0\<rparr>"
    by (simp add: hexToRgb_def m parseInt16_def hexDigitValue_def)
  have h: "rgbToHex 255 0 0 = ''#ff0000''"
    by code_simp
  show ?thesis by (simp add: m c h)
qed

section \<open>Gradient interpolation\<close>

text \<open>
  A colour channel is a whole number of [0,255], and the number \<^verbatim>\<open>colors.length - 1\<close>
  is whole and at least 1 for two stops or more. So at the position 0 every operation is
  exact, and at the position 1 the scaled position is \<^verbatim>\<open>colors.length - 1\<close> itself.
\<close>

lemma parseInt16_two: "parseInt16 (take 2 s) \<le> 255"
proof -
  have v: "hexDigitValue c \<le> 15" for c
    unfolding hexDigitValue_def Let_def by (simp; linarith)
  show ?thesis
  proof (cases s)
    case Nil
    then show ?thesis by (simp add: parseInt16_def)
  next
    case (Cons a s')
    show ?thesis
    proof (cases s')
      case Nil
      with Cons v [of a] show ?thesis by (simp add: parseInt16_def)
    next
      case (Cons b s'')
      with \<open>s = a # s'\<close> v [of a] v [of b] show ?thesis
        by (simp add: parseInt16_def numeral_2_eq_2)
    qed
  qed
qed

lemma hexToRgb_range:
  "0 \<le> r (hexToRgb h) \<and> r (hexToRgb h) \<le> 255 \<and>
   0 \<le> g (hexToRgb h) \<and> g (hexToRgb h) \<le> 255 \<and>
   0 \<le> b (hexToRgb h) \<and> b (hexToRgb h) \<le> 255"
  using parseInt16_two [of "the (matchesHex h)"] parseInt16_two [of "drop 2 (the (matchesHex h))"]
    parseInt16_two [of "drop 4 (the (matchesHex h))"]
  by (cases "matchesHex h") (simp_all add: hexToRgb_def)

lemma channel_exact:
  assumes "0 \<le> c" "c \<le> 255"
  shows "Math_round (fl (real_of_int c + fl (d * 0))) = c"
proof -
  from assms(2) have "c < 2 ^ 53" by simp
  with assms(1) have "fl (real_of_int c) = real_of_int c" by (rule fl_int)
  then show ?thesis by (simp add: Math_round_def)
qed

lemma last_index_whole:
  assumes "2 \<le> length colors"
  shows "1 \<le> fl (real (length colors - 1))"
    and "real_of_int \<lfloor>fl (real (length colors - 1))\<rfloor> = fl (real (length colors - 1))"
    and "fl (fl (real (length colors - 1))) = fl (real (length colors - 1))"
proof -
  from assms have "1 \<le> real (length colors - 1)" by simp
  then have "fl 1 \<le> fl (real (length colors - 1))" by (intro fl_mono) simp_all
  moreover have "fl 1 = 1" using fl_nat [of 1] by simp
  ultimately show "1 \<le> fl (real (length colors - 1))" by simp
  from fl_nat_whole [of "length colors - 1"] obtain k where
    "fl (real (length colors - 1)) = real_of_int k" by blast
  then show "real_of_int \<lfloor>fl (real (length colors - 1))\<rfloor> = fl (real (length colors - 1))"
    by simp
  show "fl (fl (real (length colors - 1))) = fl (real (length colors - 1))"
    by (rule fl_idem) simp
qed

lemma interpolateGradient_0:
  assumes "2 \<le> length colors"
  shows "interpolateGradient colors 0 =
    rgbToHex (r (hexToRgb (colors ! 0))) (g (hexToRgb (colors ! 0))) (b (hexToRgb (colors ! 0)))"
proof -
  from assms have ne: "length colors \<noteq> 0" "length colors \<noteq> 1" by linarith+
  from last_index_whole(1) [OF assms] have lt: "\<not> 0 \<ge> fl (real (length colors - 1))" by simp
  from assms have "0 < length colors" by linarith
  then have e: "elemOrUndefined colors 0 = colors ! 0"
    by (simp add: elemOrUndefined_def)
  note rg = hexToRgb_range [of "colors ! 0"]
  have ch: "Math_round (fl (real_of_int (r (hexToRgb (colors ! 0))) + fl (d * 0))) =
        r (hexToRgb (colors ! 0))"
      "Math_round (fl (real_of_int (g (hexToRgb (colors ! 0))) + fl (d * 0))) =
        g (hexToRgb (colors ! 0))"
      "Math_round (fl (real_of_int (b (hexToRgb (colors ! 0))) + fl (d * 0))) =
        b (hexToRgb (colors ! 0))" for d
    using rg by (simp_all only: channel_exact)
  show ?thesis
    by (simp only: interpolateGradient_def Let_def ne if_False mult_zero_left fl_zero floor_zero
        of_int_0 diff_self lt e ch)
qed

lemma interpolateGradient_1:
  assumes "2 \<le> length colors"
  shows "interpolateGradient colors 1 = colors ! (length colors - 1)"
proof -
  from assms have ne: "length colors \<noteq> 0" "length colors \<noteq> 1" by linarith+
  note w = last_index_whole [OF assms]
  show ?thesis
    by (simp only: interpolateGradient_def Let_def ne if_False mult_1 w(2,3) order_refl if_True)
qed

text \<open>
  C7 (as amended). For every list of at least 2 stops, \<open>interpolateGradient stops 1\<close> is the
  last stop as it is written, and \<open>interpolateGradient stops 0\<close> is the colour of the first
  stop written by \<^const>\<open>rgbToHex\<close>: the first stop itself when that is \<^verbatim>\<open>#\<close> and six
  digits without upper-case letters.
\<close>

theorem gradient_endpoints:
  assumes "2 \<le> length colors"
  shows "interpolateGradient colors 1 = colors ! (length colors - 1) \<and>
         interpolateGradient colors 0 =
           rgbToHex (r (hexToRgb (colors ! 0))) (g (hexToRgb (colors ! 0)))
             (b (hexToRgb (colors ! 0))) \<and>
         (isCanonicalHex (colors ! 0) \<longrightarrow> interpolateGradient colors 0 = colors ! 0)"
  using interpolateGradient_0 [OF assms] interpolateGradient_1 [OF assms]
    canonical_roundtrip [of "colors ! 0"]
  by simp

theorem gradient_endpoints_witness:
  "interpolateGradient (gradientColors DEFAULT_SETTINGS) 1 = ''#00ffff'' \<and>
   interpolateGradient (gradientColors DEFAULT_SETTINGS) 0 = ''#00ff88''"
proof -
  have c: "isCanonicalHex ''#00ff88''"
    by (simp add: isCanonicalHex_def isLowerHexDigit_def)
  have len: "2 \<le> length (gradientColors DEFAULT_SETTINGS)"
    by (simp add: DEFAULT_SETTINGS_def)
  have ends: "gradientColors DEFAULT_SETTINGS ! 0 = ''#00ff88''"
    "gradientColors DEFAULT_SETTINGS ! (length (gradientColors DEFAULT_SETTINGS) - 1) = ''#00ffff''"
    by (simp_all add: DEFAULT_SETTINGS_def)
  from gradient_endpoints [OF len]
  have "interpolateGradient (gradientColors DEFAULT_SETTINGS) 1 = ''#00ffff''"
    and "isCanonicalHex ''#00ff88'' \<longrightarrow>
      interpolateGradient (gradientColors DEFAULT_SETTINGS) 0 = ''#00ff88''"
    unfolding ends by blast+
  with c show ?thesis by blast
qed

text \<open>
  C7 as stated fails at position 0 when the first stop is written with upper-case digits (the
  result is the same colour in lower case) or is not a hex colour (the result is white).
\<close>

theorem gradient_endpoints_counterexample:
  "interpolateGradient [''#FF0000'', ''#00ff00''] 0 = ''#ff0000'' \<and>
   interpolateGradient [''#FF0000'', ''#00ff00''] 0 \<noteq> [''#FF0000'', ''#00ff00''] ! 0 \<and>
   interpolateGradient [''red'', ''#00ff00''] 0 = ''#ffffff''"
proof -
  have m: "matchesHex ''#FF0000'' = Some ''FF0000''" "matchesHex ''red'' = None"
    by (simp_all add: matchesHex_def isHexDigit_def)
  have c: "hexToRgb ''#FF0000'' = \<lparr>r = 255, g = 0, b = 0\<rparr>"
    "hexToRgb ''red'' = \<lparr>r = 255, g = 255, b = 255\<rparr>"
    by (simp_all add: hexToRgb_def m parseInt16_def hexDigitValue_def)
  have h: "rgbToHex 255 0 0 = ''#ff0000''" "rgbToHex 255 255 255 = ''#ffffff''"
    by code_simp+
  have "interpolateGradient [''#FF0000'', ''#00ff00''] 0 = ''#ff0000''"
    using interpolateGradient_0 [of "[''#FF0000'', ''#00ff00'']"] by (simp add: c h)
  moreover have "interpolateGradient [''red'', ''#00ff00''] 0 = ''#ffffff''"
    using interpolateGradient_0 [of "[''red'', ''#00ff00'']"] by (simp add: c h)
  ultimately show ?thesis by simp
qed

section \<open>Gradient stops stay between 2 and 8\<close>

lemma filter_enumerate_below:
  "k < n \<Longrightarrow> filter (\<lambda>(i, c). i \<noteq> k) (enumerate n xs) = enumerate n xs"
  by (induction xs arbitrary: n) auto

lemma remove_position:
  "map snd (filter (\<lambda>(i, c). i \<noteq> n + k) (enumerate n xs)) = take k xs @ drop (Suc k) xs"
proof (induction xs arbitrary: n k)
  case Nil
  show ?case by simp
next
  case (Cons a xs)
  show ?case
  proof (cases k)
    case 0
    then show ?thesis
      using filter_enumerate_below [of n "Suc n" xs] by simp
  next
    case (Suc k')
    then show ?thesis
      using Cons.IH [of "Suc n" k'] by simp
  qed
qed

lemma removeGradientColor_colors:
  "gradientColors (removeGradientColor settings index) =
     (if length (gradientColors settings) > 2
      then take index (gradientColors settings) @ drop (Suc index) (gradientColors settings)
      else gradientColors settings)"
  using remove_position [of 0 index "gradientColors settings"]
  by (simp add: removeGradientColor_def Let_def)

text \<open>
  C9. From settings with 2 to 8 gradient stops, adding a stop, removing the stop at any
  position and updating the colour of a stop at a position the panel shows (a position of an
  existing stop) each leave the number of stops between 2 and 8.
\<close>

theorem gradient_stop_count_invariant:
  assumes "stopCountOk settings"
  shows "stopCountOk (addGradientColor settings) \<and>
         stopCountOk (removeGradientColor settings index) \<and>
         (index < length (gradientColors settings) \<longrightarrow>
            stopCountOk (updateGradientColor settings index col))"
proof -
  from assms have "stopCountOk (addGradientColor settings)"
    by (simp add: stopCountOk_def addGradientColor_def)
  moreover from assms have "stopCountOk (removeGradientColor settings index)"
    by (auto simp: stopCountOk_def removeGradientColor_colors)
  moreover from assms have "index < length (gradientColors settings) \<longrightarrow>
      stopCountOk (updateGradientColor settings index col)"
    by (simp add: stopCountOk_def updateGradientColor_def Let_def)
  ultimately show ?thesis by blast
qed

theorem gradient_stop_count_invariant_witness:
  "stopCountOk DEFAULT_SETTINGS \<and>
   stopCountOk (addGradientColor DEFAULT_SETTINGS) \<and>
   stopCountOk (removeGradientColor DEFAULT_SETTINGS 1) \<and>
   stopCountOk (updateGradientColor DEFAULT_SETTINGS 1 ''#000000'')"
proof -
  have ok: "stopCountOk DEFAULT_SETTINGS"
    by (simp add: stopCountOk_def DEFAULT_SETTINGS_def)
  have "1 < length (gradientColors DEFAULT_SETTINGS)"
    by (simp add: DEFAULT_SETTINGS_def)
  with gradient_stop_count_invariant [OF ok, of 1 "''#000000''"] ok show ?thesis
    by blast
qed

text \<open>
  The hypothesis on the position is needed: a position beyond the last stop, which the panel
  never passes, makes the array longer.
\<close>

lemma update_beyond_end:
  "length (gradientColors (updateGradientColor DEFAULT_SETTINGS 9 ''#000000'')) = 10"
  by (simp add: updateGradientColor_def DEFAULT_SETTINGS_def Let_def)

section \<open>Exported frame sequences\<close>

declare exportGifLoop.simps [simp del] exportVideoLoop.simps [simp del]

lemma renderExportFrame_ok:
  assumes "1 \<le> width" "width < 2 ^ 31" "1 \<le> height" "height < 2 ^ 31"
    and "1 \<le> pixelSize settings" "frameCtxReady env i"
  shows "renderExportFrame env width height settings i d frames =
     Inr (frames @ [\<lparr>frameCanvas = sampledGrid (sourceCanvasAfter env i) width height settings,
                      frameDelay = d\<rparr>])"
  using assms(6)
  by (simp add: renderExportFrame_def sampledGrid_def convert_grid [OF assms(1-5)])

lemma exportGifLoop_frames:
  assumes "1 \<le> width" "width < 2 ^ 31" "1 \<le> height" "height < 2 ^ 31"
    and "1 \<le> pixelSize settings"
    and "\<And>j. i \<le> j \<Longrightarrow> j < n \<Longrightarrow> frameCtxReady env j"
  shows "exportGifLoop env width height settings fs n i frames =
     Inr (frames @ map (\<lambda>j. \<lparr>frameCanvas = sampledGrid (sourceCanvasAfter env j) width height settings,
                                 frameDelay = (if delay (fs ! j) = 0 then 100 else delay (fs ! j))\<rparr>)
                     [i..<n])"
  using assms
proof (induction env width height settings fs n i frames rule: exportGifLoop.induct)
  case (1 env width height settings fs n i frames)
  show ?case
  proof (cases "i < n")
    case False
    then show ?thesis by (subst exportGifLoop.simps) auto
  next
    case True
    let ?d = "if delay (fs ! i) = 0 then 100 else delay (fs ! i)"
    let ?frames' = "frames @ [\<lparr>frameCanvas = sampledGrid (sourceCanvasAfter env i) width height settings,
                                 frameDelay = ?d\<rparr>]"
    have ready: "frameCtxReady env i" using "1.prems"(6) [of i] True by simp
    have step: "renderExportFrame env width height settings i ?d frames = Inr ?frames'"
      using "1.prems"(1-5) ready by (rule renderExportFrame_ok)
    have rest: "exportGifLoop env width height settings fs n (i + 1) ?frames' =
        Inr (?frames' @ map (\<lambda>j. \<lparr>frameCanvas = sampledGrid (sourceCanvasAfter env j) width height settings,
                                 frameDelay = (if delay (fs ! j) = 0 then 100 else delay (fs ! j))\<rparr>)
                     [i + 1..<n])"
      using "1.prems" by (intro "1.IH" [OF True refl step]) simp_all
    have "exportGifLoop env width height settings fs n i frames =
        exportGifLoop env width height settings fs n (i + 1) ?frames'"
      using True step by (subst exportGifLoop.simps) (simp add: Let_def)
    with rest True show ?thesis
      by (simp add: upt_conv_Cons)
  qed
qed


lemma gif_export_result:
  assumes "contextsReady env" "\<And>i. i < length fs \<Longrightarrow> frameCtxReady env i"
    and "1 \<le> width" "width < 2 ^ 31" "1 \<le> height" "height < 2 ^ 31"
    and "1 \<le> pixelSize settings" "1 < length fs"
  shows "exportAsGIF env ImageElement (Some fs) width height settings =
     Inr (map (\<lambda>i. \<lparr>frameCanvas = sampledGrid (sourceCanvasAfter env i) width height settings,
                       frameDelay = (if delay (fs ! i) = 0 then 100 else delay (fs ! i))\<rparr>)
            [0..<length fs])"
  using assms(1,8) exportGifLoop_frames [OF assms(3-7), of 0 "length fs" env fs "[]"] assms(2)
  by (simp add: exportAsGIF_def isAnimatedGif_def)

text \<open>
  C4 (as amended). For an animated GIF of \<open>n\<close> frames (more than one), when the canvases
  have their contexts, the frame is at least 1 by 1 and narrower and lower than \<open>2^31\<close>, and
  the pixel size is at least 1, the export appends exactly \<open>n\<close> frames: the \<open>i\<close>-th shows
  the source after the drawing of frame \<open>i\<close> and carries the delay of source frame \<open>i\<close>, or
  100 where that delay is zero. When no source delay is zero, the delays are the source
  delays.
\<close>

theorem gif_export_frames:
  assumes "contextsReady env" "\<forall>i < length fs. frameCtxReady env i"
    and "1 \<le> width" "width < 2 ^ 31" "1 \<le> height" "height < 2 ^ 31"
    and "1 \<le> pixelSize settings" "1 < length fs"
  shows "\<exists>frames. exportAsGIF env ImageElement (Some fs) width height settings = Inr frames \<and>
     length frames = length fs \<and>
     (\<forall>i < length fs.
        frameCanvas (frames ! i) = sampledGrid (sourceCanvasAfter env i) width height settings \<and>
        frameDelay (frames ! i) = (if delay (fs ! i) = 0 then 100 else delay (fs ! i))) \<and>
     ((\<forall>f \<in> set fs. delay f \<noteq> 0) \<longrightarrow> map frameDelay frames = map delay fs)"
proof -
  let ?frames = "map (\<lambda>i. \<lparr>frameCanvas = sampledGrid (sourceCanvasAfter env i) width height settings,
                       frameDelay = (if delay (fs ! i) = 0 then 100 else delay (fs ! i))\<rparr>)
            [0..<length fs]"
  have res: "exportAsGIF env ImageElement (Some fs) width height settings = Inr ?frames"
    using assms by (intro gif_export_result) simp_all
  have len: "length ?frames = length fs" by simp
  have nth: "\<forall>i < length fs.
        frameCanvas (?frames ! i) = sampledGrid (sourceCanvasAfter env i) width height settings \<and>
        frameDelay (?frames ! i) = (if delay (fs ! i) = 0 then 100 else delay (fs ! i))"
    by simp
  have "map frameDelay ?frames = map delay fs" if "\<forall>f \<in> set fs. delay f \<noteq> 0"
  proof (rule nth_equalityI)
    show "length (map frameDelay ?frames) = length (map delay fs)" by simp
  next
    fix i assume "i < length (map frameDelay ?frames)"
    then have i: "i < length fs" by simp
    with that have "delay (fs ! i) \<noteq> 0" by simp
    with i show "map frameDelay ?frames ! i = map delay fs ! i" by simp
  qed
  with res len nth show ?thesis by blast
qed

theorem gif_export_frames_witness:
  "\<exists>frames. exportAsGIF readyEnv ImageElement (Some twoGifFrames) 2 4 differenceSettings =
       Inr frames \<and>
     length frames = 2 \<and> map frameDelay frames = [100, 200]"
proof -
  have env: "contextsReady readyEnv" "\<forall>i < length twoGifFrames. frameCtxReady readyEnv i"
    by (simp_all add: readyEnv_def)
  have size: "(1::nat) \<le> 2" "(2::nat) < 2 ^ 31" "(1::nat) \<le> 4" "(4::nat) < 2 ^ 31"
    by simp_all
  have ps: "1 \<le> pixelSize differenceSettings"
    by (simp add: differenceSettings_def DEFAULT_SETTINGS_def)
  have fs: "1 < length twoGifFrames" "length twoGifFrames = 2"
    "\<forall>f \<in> set twoGifFrames. delay f \<noteq> 0" "map delay twoGifFrames = [100, 200]"
    by (simp_all add: twoGifFrames_def)
  from gif_export_frames [OF env size ps fs(1)] obtain frames where
    "exportAsGIF readyEnv ImageElement (Some twoGifFrames) 2 4 differenceSettings = Inr frames"
    "length frames = length twoGifFrames"
    "(\<forall>f \<in> set twoGifFrames. delay f \<noteq> 0) \<longrightarrow> map frameDelay frames = map delay twoGifFrames"
    by blast
  with fs show ?thesis by auto
qed

text \<open>
  C4 as stated fails: a source frame with the delay 0 is exported with the delay 100.
\<close>

theorem gif_export_counterexample:
  "map delay zeroDelayGifFrames = [0, 200] \<and>
   (\<exists>frames. exportAsGIF readyEnv ImageElement (Some zeroDelayGifFrames) 2 4 differenceSettings =
      Inr frames \<and> map frameDelay frames = [100, 200])"
proof -
  have "exportAsGIF readyEnv ImageElement (Some zeroDelayGifFrames) 2 4 differenceSettings =
     Inr (map (\<lambda>i. \<lparr>frameCanvas = sampledGrid (sourceCanvasAfter readyEnv i) 2 4 differenceSettings,
                       frameDelay = (if delay (zeroDelayGifFrames ! i) = 0 then 100
                                     else delay (zeroDelayGifFrames ! i))\<rparr>)
            [0..<length zeroDelayGifFrames])"
    by (rule gif_export_result)
      (simp_all add: readyEnv_def zeroDelayGifFrames_def differenceSettings_def
        DEFAULT_SETTINGS_def)
  then show ?thesis
    by (simp add: zeroDelayGifFrames_def upt_conv_Cons)
qed







section \<open>Inverting the glyph mapping\<close>

text \<open>
  A product with the ramp length: when \<open>a\<close> is within \<open>c * 2^-53\<close> of a value \<open>u\<close> of
  [0,1], the rounded product \<open>fl (a * m)\<close> is within \<open>(c + 2) * m * 2^-53\<close> of \<open>u * m\<close>.
\<close>

lemma fl_scaled_error:
  assumes "\<bar>a - u\<bar> \<le> c / 2 ^ 53" "0 \<le> u" "u \<le> 1" "0 \<le> m" "0 \<le> c" "c \<le> 3"
  shows "\<bar>fl (a * m) - u * m\<bar> \<le> (c + 2) * m / 2 ^ 53"
proof -
  have "c / 2 ^ 53 \<le> (1::real)" using assms(6) by simp
  with assms(1,2,3) have a2: "\<bar>a\<bar> \<le> 2" by linarith
  have "\<bar>fl (a * m) - a * m\<bar> \<le> \<bar>a * m\<bar> / 2 ^ 53" by (rule fl_error)
  also have "\<bar>a * m\<bar> = \<bar>a\<bar> * m" using assms(4) by (simp add: abs_mult)
  also have "\<bar>a\<bar> * m / 2 ^ 53 \<le> 2 * m / 2 ^ 53"
    using a2 assms(4) by (intro divide_right_mono mult_right_mono) simp_all
  finally have r: "\<bar>fl (a * m) - a * m\<bar> \<le> 2 * m / 2 ^ 53" .
  have "\<bar>a * m - u * m\<bar> = \<bar>a - u\<bar> * m"
    using assms(4) by (simp add: abs_mult left_diff_distrib [symmetric])
  also have "\<dots> \<le> c / 2 ^ 53 * m"
    using assms(1,4) by (rule mult_right_mono)
  finally have s: "\<bar>a * m - u * m\<bar> \<le> c * m / 2 ^ 53" by simp
  have "\<bar>fl (a * m) - u * m\<bar> \<le> \<bar>fl (a * m) - a * m\<bar> + \<bar>a * m - u * m\<bar>" by simp
  with r s have "\<bar>fl (a * m) - u * m\<bar> \<le> 2 * m / 2 ^ 53 + c * m / 2 ^ 53" by linarith
  then show ?thesis by (simp add: algebra_simps add_divide_distrib)
qed

text \<open>
  The index value of both sides, for a real intensity \<open>x\<close> of [0,255] and \<open>m\<close> the ramp length
  less one: the exact value is \<open>(255 - x) / 255 * m\<close>; the inverted side is within
  \<open>5 m 2^-53\<close> of it, the other side within \<open>3 m 2^-53\<close>, and within \<open>4 m 2^-53\<close> when
  \<open>255 - x\<close> is itself rounded to a double first.
\<close>

lemma inverted_error:
  assumes "0 \<le> x" "x \<le> 255" "0 \<le> m"
  shows "\<bar>fl (fl (1 - fl (x / 255)) * m) - (255 - x) / 255 * m\<bar> \<le> 5 * m / 2 ^ 53"
proof -
  define p where "p = x / 255"
  define u where "u = (255 - x) / 255"
  have pu: "p + u = 1" by (simp add: p_def u_def field_simps)
  have p01: "0 \<le> p" "p \<le> 1" and u01: "0 \<le> u" "u \<le> 1"
    using assms(1,2) by (simp_all add: p_def u_def)
  have "\<bar>fl p - p\<bar> \<le> \<bar>p\<bar> / 2 ^ 53" by (rule fl_error)
  with p01 have e1: "\<bar>fl p - p\<bar> \<le> 1 / 2 ^ 53" by simp
  with pu have s: "\<bar>(1 - fl p) - u\<bar> \<le> 1 / 2 ^ 53" by linarith
  have small: "(1::real) / 2 ^ 53 \<le> 1" by simp
  from s u01 small have "\<bar>1 - fl p\<bar> \<le> 2" by linarith
  moreover have "\<bar>fl (1 - fl p) - (1 - fl p)\<bar> \<le> \<bar>1 - fl p\<bar> / 2 ^ 53" by (rule fl_error)
  ultimately have "\<bar>fl (1 - fl p) - (1 - fl p)\<bar> \<le> 2 / 2 ^ 53" by simp
  with s have a: "\<bar>fl (1 - fl p) - u\<bar> \<le> 3 / 2 ^ 53" by linarith
  from fl_scaled_error [OF a u01 assms(3)]
  show ?thesis by (simp add: p_def u_def)
qed

lemma direct_error:
  assumes "0 \<le> x" "x \<le> 255" "0 \<le> m"
  shows "\<bar>fl (fl ((255 - x) / 255) * m) - (255 - x) / 255 * m\<bar> \<le> 3 * m / 2 ^ 53"
proof -
  define u where "u = (255 - x) / 255"
  have u01: "0 \<le> u" "u \<le> 1"
    using assms(1,2) by (simp_all add: u_def)
  have "\<bar>fl u - u\<bar> \<le> \<bar>u\<bar> / 2 ^ 53" by (rule fl_error)
  with u01 have a: "\<bar>fl u - u\<bar> \<le> 1 / 2 ^ 53" by simp
  from fl_scaled_error [OF a u01 assms(3)]
  show ?thesis by (simp add: u_def)
qed

lemma fl_255: "fl 255 = 255"
  using fl_nat [of 255] by simp

lemma rounded_complement_range:
  assumes "0 \<le> x" "x \<le> 255"
  shows "0 \<le> fl (255 - x) \<and> fl (255 - x) \<le> 255"
proof -
  from assms(2) have "0 \<le> fl (255 - x)" by (intro fl_nonneg) simp
  moreover from assms have "fl (255 - x) \<le> fl 255" by (intro fl_mono) simp_all
  ultimately show ?thesis by (simp add: fl_255)
qed

lemma rounded_direct_error:
  assumes "0 \<le> x" "x \<le> 255" "0 \<le> m"
  shows "\<bar>fl (fl (fl (255 - x) / 255) * m) - (255 - x) / 255 * m\<bar> \<le> 4 * m / 2 ^ 53"
proof -
  define y where "y = fl (255 - x)"
  define u where "u = (255 - x) / 255"
  have u01: "0 \<le> u" "u \<le> 1"
    using assms(1,2) by (simp_all add: u_def)
  from rounded_complement_range [OF assms(1,2)] have y: "0 \<le> y" "y \<le> 255"
    by (simp_all add: y_def)
  have "\<bar>y - (255 - x)\<bar> \<le> \<bar>255 - x\<bar> / 2 ^ 53"
    unfolding y_def by (rule fl_error)
  also have "\<dots> \<le> 255 / 2 ^ 53" using assms(1,2) by simp
  finally have "\<bar>y - (255 - x)\<bar> / 255 \<le> (255 / 2 ^ 53) / 255"
    by (rule divide_right_mono) simp
  then have e1: "\<bar>y / 255 - u\<bar> \<le> 1 / 2 ^ 53"
    by (simp add: u_def diff_divide_distrib [symmetric])
  have "\<bar>fl (y / 255) - y / 255\<bar> \<le> \<bar>y / 255\<bar> / 2 ^ 53" by (rule fl_error)
  also have "\<dots> \<le> 1 / 2 ^ 53" using y by simp
  finally have "\<bar>fl (y / 255) - y / 255\<bar> \<le> 1 / 2 ^ 53" .
  with e1 have a: "\<bar>fl (y / 255) - u\<bar> \<le> 2 / 2 ^ 53" by linarith
  from fl_scaled_error [OF a u01 assms(3)]
  show ?thesis by (simp add: y_def u_def)
qed

text \<open>
  A value closer to \<open>t\<close> than \<open>t\<close> is to a tie has the \<^verbatim>\<open>Math.round\<close> of \<open>t\<close>.
\<close>

lemma round_away_from_tie:
  assumes "d < \<bar>t - real_of_int \<lfloor>t\<rfloor> - 1 / 2\<bar>" "\<bar>v - t\<bar> \<le> d"
  shows "Math_round v = Math_round t"
proof -
  define f where "f = \<lfloor>t\<rfloor>"
  define th where "th = t - real_of_int f"
  have th: "0 \<le> th" "th < 1" unfolding th_def f_def by linarith+
  have t: "t = real_of_int f + th" by (simp add: th_def)
  from assms have d0: "0 \<le> d" by linarith
  from assms(1) have far: "d < \<bar>th - 1 / 2\<bar>" by (simp add: th_def f_def)
  show ?thesis
  proof (cases "th < 1 / 2")
    case True
    with far have "th + d < 1 / 2" by linarith
    with assms(2) t th d0 have "real_of_int f \<le> v + 1 / 2" "v + 1 / 2 < real_of_int f + 1"
      by linarith+
    then have "\<lfloor>v + 1 / 2\<rfloor> = f" by linarith
    moreover from True t th have "\<lfloor>t + 1 / 2\<rfloor> = f" by linarith
    ultimately show ?thesis by (simp add: Math_round_def)
  next
    case False
    with far have "1 / 2 + d < th" by linarith
    with assms(2) t th d0 have "real_of_int (f + 1) \<le> v + 1 / 2"
      "v + 1 / 2 < real_of_int (f + 1) + 1"
      by simp_all
    then have "\<lfloor>v + 1 / 2\<rfloor> = f + 1" by linarith
    moreover from False t th have "\<lfloor>t + 1 / 2\<rfloor> = f + 1" by linarith
    ultimately show ?thesis by (simp add: Math_round_def)
  qed
qed

text \<open>
  The exact index value of a whole intensity is a multiple of \<open>1/255\<close>, at least \<open>1/510\<close>
  away from every tie.
\<close>

lemma whole_intensity_off_tie:
  "1 / 510 \<le> \<bar>real_of_int n / 255 - real_of_int \<lfloor>real_of_int n / 255\<rfloor> - 1 / 2\<bar>"
proof -
  define k where "k = n div 255"
  define j where "j = n mod 255"
  have n: "n = 255 * k + j" by (simp add: k_def j_def)
  have j: "0 \<le> j" "j < 255" by (simp_all add: j_def)
  have fl: "\<lfloor>real_of_int n / 255\<rfloor> = k"
    using floor_divide_of_int_eq [of n 255, where ?'a = real] by (simp add: k_def)
  have e: "real_of_int n / 255 - real_of_int k - 1 / 2 = real_of_int (2 * j - 255) / 510"
    unfolding n by (simp add: field_simps)
  have "1 \<le> \<bar>2 * j - 255\<bar>" by presburger
  then have "1 \<le> \<bar>real_of_int (2 * j - 255)\<bar>" by linarith
  then have "1 / 510 \<le> \<bar>real_of_int (2 * j - 255)\<bar> / 510"
    by (intro divide_right_mono) simp_all
  also have "\<dots> = \<bar>real_of_int (2 * j - 255) / 510\<bar>" by simp
  finally show ?thesis unfolding fl e .
qed

lemma glyph_by_index:
  assumes "2 \<le> length charSet" "0 \<le> v" "v \<le> 255"
  shows "getCharacterForBrightness v charSet True =
           [charSet ! nat (min (max 0 (Math_round
              (fl (fl (1 - fl (v / 255)) * real (length charSet - 1))))) (int (length charSet) - 1))]"
    and "getCharacterForBrightness v charSet False =
           [charSet ! nat (min (max 0 (Math_round
              (fl (fl (v / 255) * real (length charSet - 1))))) (int (length charSet) - 1))]"
proof -
  from assms(1) have ne: "length charSet \<noteq> 0" "length charSet \<noteq> 1" by linarith+
  from assms(2,3) have cl: "min 255 (max 0 v) = v" by simp
  show "getCharacterForBrightness v charSet True =
           [charSet ! nat (min (max 0 (Math_round
              (fl (fl (1 - fl (v / 255)) * real (length charSet - 1))))) (int (length charSet) - 1))]"
    by (simp only: getCharacterForBrightness_def Let_def ne if_False if_True cl)
  show "getCharacterForBrightness v charSet False =
           [charSet ! nat (min (max 0 (Math_round
              (fl (fl (v / 255) * real (length charSet - 1))))) (int (length charSet) - 1))]"
    by (simp only: getCharacterForBrightness_def Let_def ne if_False if_True cl)
qed

lemma invert_mirrors_off_tie:
  assumes "0 \<le> x" "x \<le> 255"
    and "5 * real (length charSet - 1) / 2 ^ 53 <
           \<bar>(255 - x) / 255 * real (length charSet - 1) -
             real_of_int \<lfloor>(255 - x) / 255 * real (length charSet - 1)\<rfloor> - 1 / 2\<bar>"
  shows "getCharacterForBrightness x charSet True =
           getCharacterForBrightness (255 - x) charSet False"
    and "getCharacterForBrightness x charSet True =
           getCharacterForBrightness (fl (255 - x)) charSet False"
proof -
  define m where "m = real (length charSet - 1)"
  define t where "t = (255 - x) / 255 * m"
  have m0: "0 \<le> m" by (simp add: m_def)
  note far = assms(3) [folded m_def, folded t_def]
  have i: "\<bar>fl (fl (1 - fl (x / 255)) * m) - t\<bar> \<le> 5 * m / 2 ^ 53"
    unfolding t_def using assms(1,2) m0 by (rule inverted_error)
  have "\<bar>fl (fl ((255 - x) / 255) * m) - t\<bar> \<le> 3 * m / 2 ^ 53"
    unfolding t_def using assms(1,2) m0 by (rule direct_error)
  also have "\<dots> \<le> 5 * m / 2 ^ 53" using m0 by simp
  finally have d: "\<bar>fl (fl ((255 - x) / 255) * m) - t\<bar> \<le> 5 * m / 2 ^ 53" .
  have "\<bar>fl (fl (fl (255 - x) / 255) * m) - t\<bar> \<le> 4 * m / 2 ^ 53"
    unfolding t_def using assms(1,2) m0 by (rule rounded_direct_error)
  also have "\<dots> \<le> 5 * m / 2 ^ 53" using m0 by simp
  finally have r: "\<bar>fl (fl (fl (255 - x) / 255) * m) - t\<bar> \<le> 5 * m / 2 ^ 53" .
  note ri = round_away_from_tie [OF far i]
  note rd = round_away_from_tie [OF far d]
  note rr = round_away_from_tie [OF far r]
  from assms(1,2) have c: "0 \<le> 255 - x" "255 - x \<le> 255" by simp_all
  note cr = rounded_complement_range [OF assms(1,2)]
  show "getCharacterForBrightness x charSet True =
           getCharacterForBrightness (255 - x) charSet False"
  proof (cases "2 \<le> length charSet")
    case True
    show ?thesis
      unfolding glyph_by_index(1) [OF True assms(1,2)] glyph_by_index(2) [OF True c]
      using ri rd by (simp only: m_def)
  next
    case False
    then have "length charSet = 0 \<or> length charSet = 1" by linarith
    then show ?thesis by (auto simp: getCharacterForBrightness_def)
  qed
  show "getCharacterForBrightness x charSet True =
           getCharacterForBrightness (fl (255 - x)) charSet False"
  proof (cases "2 \<le> length charSet")
    case True
    show ?thesis
      unfolding glyph_by_index(1) [OF True assms(1,2)]
        glyph_by_index(2) [OF True cr [THEN conjunct1] cr [THEN conjunct2]]
      using ri rr by (simp only: m_def)
  next
    case False
    then have "length charSet = 0 \<or> length charSet = 1" by linarith
    then show ?thesis by (auto simp: getCharacterForBrightness_def)
  qed
qed

text \<open>
  C6 (as amended). For every intensity \<open>x\<close> of [0,255] and every ramp, of \<open>n\<close> characters:
  when the exact index value \<open>(255 - x) (n - 1) / 255\<close> is farther than \<open>5 (n - 1) 2^-53\<close> from
  a tie, the glyph of \<open>x\<close> with \<^verbatim>\<open>invert\<close> is the glyph of \<open>255 - x\<close> without it, also
  when \<open>255 - x\<close> is rounded to a double. This is so for every whole \<open>x\<close> and every ramp of
  at most \<open>2^32\<close> characters.
\<close>

theorem invert_mirrors_away_from_ties:
  assumes "0 \<le> x" "x \<le> 255"
  shows "(5 * real (length charSet - 1) / 2 ^ 53 <
            \<bar>(255 - x) / 255 * real (length charSet - 1) -
              real_of_int \<lfloor>(255 - x) / 255 * real (length charSet - 1)\<rfloor> - 1 / 2\<bar> \<longrightarrow>
          getCharacterForBrightness x charSet True =
            getCharacterForBrightness (255 - x) charSet False \<and>
          getCharacterForBrightness x charSet True =
            getCharacterForBrightness (fl (255 - x)) charSet False) \<and>
         (x \<in> \<int> \<and> length charSet \<le> 2 ^ 32 \<longrightarrow>
          getCharacterForBrightness x charSet True =
            getCharacterForBrightness (255 - x) charSet False)"
proof -
  have whole: "getCharacterForBrightness x charSet True =
      getCharacterForBrightness (255 - x) charSet False"
    if "x \<in> \<int>" "length charSet \<le> 2 ^ 32"
  proof -
    from that(1) obtain n where x: "x = real_of_int n" by (auto elim: Ints_cases)
    define m where "m = int (length charSet - 1)"
    have rm: "real (length charSet - 1) = real_of_int m" by (simp add: m_def)
    have "length charSet - 1 \<le> 2 ^ 32" using that(2) by simp
    then have "m \<le> 2 ^ 32" unfolding m_def by (metis of_nat_le_numeral_power_cancel_iff)
    then have m32: "real_of_int m \<le> 2 ^ 32" by (metis of_int_le_numeral_power_cancel_iff)
    have m0: "0 \<le> real_of_int m" by (simp add: m_def)
    have eq: "real_of_int ((255 - n) * m) / 255 = (255 - x) / 255 * real (length charSet - 1)"
      unfolding x rm by simp
    have "5 * real_of_int m / 2 ^ 53 \<le> 5 * 2 ^ 32 / 2 ^ 53"
      using m32 by simp
    also have "\<dots> < (1::real) / 510" by simp
    also have "\<dots> \<le> \<bar>(255 - x) / 255 * real (length charSet - 1) -
        real_of_int \<lfloor>(255 - x) / 255 * real (length charSet - 1)\<rfloor> - 1 / 2\<bar>"
      using whole_intensity_off_tie [of "(255 - n) * m"] unfolding eq .
    finally show ?thesis
      unfolding rm [symmetric] by (intro invert_mirrors_off_tie(1) [OF assms])
  qed
  from invert_mirrors_off_tie [OF assms] whole show ?thesis by blast
qed

theorem invert_mirrors_away_from_ties_witness:
  "getCharacterForBrightness 106.5 ''.-:=+#@'' True =
     getCharacterForBrightness (255 - 106.5) ''.-:=+#@'' False \<and>
   getCharacterForBrightness 106.5 ''.-:=+#@'' True =
     getCharacterForBrightness (fl (255 - 106.5)) ''.-:=+#@'' False \<and>
   getCharacterForBrightness 106 ''.-:=+#@'' True =
     getCharacterForBrightness (255 - 106) ''.-:=+#@'' False"
proof -
  have r: "(0::real) \<le> 106.5" "(106.5::real) \<le> 255" "(0::real) \<le> 106" "(106::real) \<le> 255"
    by simp_all
  have far: "5 * real (length ''.-:=+#@'' - 1) / 2 ^ 53 <
      \<bar>(255 - 106.5) / 255 * real (length ''.-:=+#@'' - 1) -
        real_of_int \<lfloor>(255 - 106.5) / 255 * real (length ''.-:=+#@'' - 1)\<rfloor> - 1 / 2\<bar>"
    by simp
  have w: "(106::real) \<in> \<int> \<and> length ''.-:=+#@'' \<le> 2 ^ 32" by simp
  from invert_mirrors_away_from_ties [OF r(1,2), of "''.-:=+#@''", THEN conjunct1, rule_format,
      OF far]
    invert_mirrors_away_from_ties [OF r(3,4), of "''.-:=+#@''", THEN conjunct2, rule_format,
      OF w]
  show ?thesis by blast
qed

text \<open>
  C6 as stated fails on an intensity whose index value is a tie: for 106.25 and the ramp
  of seven characters \<^verbatim>\<open>.-:=+#@\<close> the exact value is 3.5 on both sides, the inverted side
  computes \<open>1 - fl (106.25 / 255)\<close>, which is below \<open>fl (148.75 / 255)\<close>, and rounds to
  index 3 where the other side rounds to index 4.
\<close>

theorem invert_mirrors_counterexample:
  "getCharacterForBrightness 106.25 ''.-:=+#@'' True = ''='' \<and>
   getCharacterForBrightness (255 - 106.25) ''.-:=+#@'' False = ''+''"
  by code_simp

end
